theory Spec2Isabelle
  imports Main "HOL-Library.Multiset"
begin

section \<open>Host arrays and the wrapper objects of \<open>equistore/data.py\<close>\<close>

text \<open>
  The module wraps a NumPy \<open>ndarray\<close> or a torch \<open>Tensor\<close> in an \<open>ArrayWrapper\<close> and
  exposes it to the native core through the callbacks \<open>_eqs_array_*\<close>. A leading
  underscore is not an Isabelle identifier, so \<open>_eqs_array_reshape\<close> is
  \<open>eqs_array_reshape\<close> here, and so on; the field \<open>_shape\<close> of a wrapper is
  \<open>wshape\<close> and \<open>_children\<close> is \<open>children\<close>.

  A host array is a value with an element type, a device, a shape and its elements in
  row-major order. Elements are opaque (type \<open>'a\<close>); sizes and indices are natural
  numbers, as every size and index reaches Python from an unsigned C integer.
\<close>

datatype backend = Numpy | Torch

datatype dtype = Float32 | Float64 | Int32 | Int64

datatype device = Cpu | Cuda nat

record 'a ndarray =
  kind :: backend
  dtype :: dtype
  device :: device
  shape :: "nat list"
  data :: "'a list"

text \<open>The exceptions the callbacks can meet; \<open>catch_exceptions\<close> turns each into a
  failure status for the caller. \<open>InvalidPointer\<close> stands for a pointer that addresses
  no Python object, which the interface never passes.\<close>

datatype error =
    AttributeError | TypeError | ValueError | IndexError | AxisError | RuntimeError
  | InvalidPointer

record wrapper =
  array :: "nat option"
  wshape :: "nat list"
  children :: "nat list"
  array_origin :: nat

text \<open>
  Python objects have identity: the state holds the host arrays and the wrappers, each
  addressed by its position, so that two references to one object are two equal
  addresses. A new object takes the next free position; nothing is ever collected.
  The state also holds the two module globals and the origin table of the core library.
\<close>

record 'a state =
  arrays :: "'a ndarray list"
  objects :: "wrapper list"
  registry :: "string list"
  NUMPY_STORAGE_ORIGIN :: "nat option"
  TORCH_STORAGE_ORIGIN :: "nat option"

subsection \<open>Origins\<close>

fun index_of :: "'b \<Rightarrow> 'b list \<Rightarrow> nat option" where
  "index_of x [] = None"
| "index_of x (y # ys) =
     (if x = y then Some 0 else map_option Suc (index_of x ys))"

text \<open>
  Modelled from the spec: \<open>eqs_register_data_origin\<close> belongs to the core library, which
  is not part of the Python sources. The specification says that it returns the origin
  id of a backend name, registering the name on the first call, that the same name
  always yields the same id, and that the table only grows. The id of a name is its
  position in the table.
\<close>

definition eqs_register_data_origin :: "string \<Rightarrow> string list \<Rightarrow> nat \<times> string list" where
  "eqs_register_data_origin name reg =
     (case index_of name reg of
        Some i \<Rightarrow> (i, reg)
      | None \<Rightarrow> (length reg, reg @ [name]))"

definition dunder_name :: string where
  "dunder_name = ''equistore.data''"

definition numpy_origin :: "'a state \<Rightarrow> nat \<times> 'a state" where
  "numpy_origin st =
     (case NUMPY_STORAGE_ORIGIN st of
        Some v \<Rightarrow> (v, st)
      | None \<Rightarrow>
          (let origin_name = dunder_name @ ''.numpy'';
               (v, reg) = eqs_register_data_origin origin_name (registry st)
           in (v, st\<lparr>registry := reg, NUMPY_STORAGE_ORIGIN := Some v\<rparr>)))"

definition torch_origin :: "'a state \<Rightarrow> nat \<times> 'a state" where
  "torch_origin st =
     (case TORCH_STORAGE_ORIGIN st of
        Some v \<Rightarrow> (v, st)
      | None \<Rightarrow>
          (let origin_name = dunder_name @ ''.torch'';
               (v, reg) = eqs_register_data_origin origin_name (registry st)
           in (v, st\<lparr>registry := reg, TORCH_STORAGE_ORIGIN := Some v\<rparr>)))"

subsection \<open>Row-major indexing\<close>

text \<open>The position of a multi-index in the row-major element list, and back.\<close>

fun ravel :: "nat list \<Rightarrow> nat list \<Rightarrow> nat" where
  "ravel (d # ds) (j # js) = j * prod_list ds + ravel ds js"
| "ravel _ _ = 0"

fun unravel :: "nat list \<Rightarrow> nat \<Rightarrow> nat list" where
  "unravel [] n = []"
| "unravel (d # ds) n = (n div prod_list ds) # unravel ds (n mod prod_list ds)"

definition valid_index :: "nat list \<Rightarrow> nat list \<Rightarrow> bool" where
  "valid_index sh idx = list_all2 (\<lambda>j d. j < d) idx sh"

definition elem :: "'a ndarray \<Rightarrow> nat list \<Rightarrow> 'a" where
  "elem a idx = data a ! ravel (shape a) idx"

definition wf_array :: "'a ndarray \<Rightarrow> bool" where
  "wf_array a = (length (data a) = prod_list (shape a) \<and> (kind a = Numpy \<longrightarrow> device a = Cpu))"

subsection \<open>The host library calls the module makes\<close>

text \<open>
  What \<open>reshape\<close>, \<open>swapaxes\<close>, \<open>zeros\<close>, \<open>copy\<close>/\<open>clone\<close> and indexing do in NumPy
  and torch, as far as the callbacks use them. Each call returns a new array object; a
  view returned by \<open>reshape\<close> or \<open>swapaxes\<close> is modelled by the elements it shows, and
  its sharing of memory with the array it was taken from is not tracked. An array is of
  the base class \<open>ndarray\<close> or \<open>Tensor\<close>: a subclass that overrides these methods is
  not modelled. Memory is taken to suffice for every array the library can represent.

  The libraries are not part of the repository, and some of what they refuse depends on
  constants of theirs or on state an array here does not show. These are parameters of
  the model, the fields of a \<open>host\<close>:

    \<^item> \<open>shape_limit k s\<close> is the exception, if any, with which library \<open>k\<close> refuses
      to build an array of shape \<open>s\<close>: more axes than it supports (32 in NumPy before
      2.0, 64 since), a size or an element count beyond a signed 64-bit integer;

    \<^item> \<open>assign_limit out v\<close> is the exception, if any, with which an assignment of
      \<open>v\<close> into \<open>out\<close> is refused on account of gradient recording (torch refuses an
      in-place write into a leaf tensor that requires gradients, and a tensor that
      requires gradients has no conversion to an \<open>ndarray\<close>);

    \<^item> \<open>cast s t x\<close> is the element \<open>x\<close> of element type \<open>s\<close> converted to the element
      type \<open>t\<close>, which NumPy does on assignment; elements are opaque here;

    \<^item> \<open>order rows idx\<close> is the entry of the index list \<open>rows\<close> that an assignment
      lets decide the element at \<open>idx\<close>, when several entries name the row of \<open>idx\<close>:
      the libraries leave that to their iteration order.
\<close>

record 'a host =
  shape_limit :: "backend \<Rightarrow> nat list \<Rightarrow> error option"
  assign_limit :: "'a ndarray \<Rightarrow> 'a ndarray \<Rightarrow> error option"
  cast :: "dtype \<Rightarrow> dtype \<Rightarrow> 'a \<Rightarrow> 'a"
  order :: "nat list \<Rightarrow> nat list \<Rightarrow> nat option"

definition convert :: "'a host \<Rightarrow> dtype \<Rightarrow> dtype \<Rightarrow> 'a \<Rightarrow> 'a" where
  "convert h s t x = (if s = t then x else cast h s t x)"

definition shape_error :: "backend \<Rightarrow> error" where
  "shape_error k = (case k of Numpy \<Rightarrow> ValueError | Torch \<Rightarrow> RuntimeError)"

definition axis_error :: "backend \<Rightarrow> error" where
  "axis_error k = (case k of Numpy \<Rightarrow> AxisError | Torch \<Rightarrow> IndexError)"

text \<open>\<open>a.reshape(s)\<close>: the sizes are taken over first, which is where a shape beyond
  the limits of the library is refused, then their product is compared with the number
  of elements.\<close>

definition ndarray_reshape :: "'a host \<Rightarrow> 'a ndarray \<Rightarrow> nat list \<Rightarrow> error + 'a ndarray" where
  "ndarray_reshape h a s =
     (case shape_limit h (kind a) s of
        Some e \<Rightarrow> Inl e
      | None \<Rightarrow>
          if prod_list s = prod_list (shape a) then Inr (a\<lparr>shape := s\<rparr>)
          else Inl (shape_error (kind a)))"

definition swap :: "nat \<Rightarrow> nat \<Rightarrow> 'b list \<Rightarrow> 'b list" where
  "swap i j xs = xs[i := xs ! j, j := xs ! i]"

definition ndarray_swapaxes :: "'a ndarray \<Rightarrow> nat \<Rightarrow> nat \<Rightarrow> error + 'a ndarray" where
  "ndarray_swapaxes a i j =
     (if i < length (shape a) \<and> j < length (shape a) then
        (let s = swap i j (shape a)
         in Inr (a\<lparr>shape := s,
                   data := map (\<lambda>n. elem a (swap i j (unravel s n))) [0..<prod_list s]\<rparr>))
      else Inl (axis_error (kind a)))"

definition np_zeros :: "'a host \<Rightarrow> nat list \<Rightarrow> dtype \<Rightarrow> error + ('a::zero) ndarray" where
  "np_zeros h s t =
     (case shape_limit h Numpy s of
        Some e \<Rightarrow> Inl e
      | None \<Rightarrow>
          Inr \<lparr>kind = Numpy, dtype = t, device = Cpu, shape = s,
               data = replicate (prod_list s) 0\<rparr>)"

definition torch_zeros ::
  "'a host \<Rightarrow> nat list \<Rightarrow> dtype \<Rightarrow> device \<Rightarrow> error + ('a::zero) ndarray" where
  "torch_zeros h s t d =
     (case shape_limit h Torch s of
        Some e \<Rightarrow> Inl e
      | None \<Rightarrow>
          Inr \<lparr>kind = Torch, dtype = t, device = d, shape = s,
               data = replicate (prod_list s) 0\<rparr>)"

text \<open>\<open>a[rows, ..., :]\<close>: the list selects along the first axis, the slice takes the
  whole last axis, so the array needs two axes at least; the result is a new array
  with one row for each entry of the list.\<close>

definition getitem_rows :: "'a host \<Rightarrow> 'a ndarray \<Rightarrow> nat list \<Rightarrow> error + 'a ndarray" where
  "getitem_rows h a rows =
     (if length (shape a) < 2 then Inl IndexError
      else if list_ex (\<lambda>r. hd (shape a) \<le> r) rows then Inl IndexError
      else
        (let s = length rows # tl (shape a)
         in (case shape_limit h (kind a) s of
               Some e \<Rightarrow> Inl e
             | None \<Rightarrow>
                 Inr (a\<lparr>shape := s,
                        data := map (\<lambda>n. let idx = unravel s n
                                          in elem a (rows ! hd idx # tl idx))
                                    [0..<prod_list s]\<rparr>))))"

text \<open>\<open>slice(start, stop).indices(len)\<close> for bounds that are not negative: both are
  clipped to the length, and a slice whose clipped stop is below its start is empty.\<close>

definition slice_indices :: "nat \<Rightarrow> nat \<Rightarrow> nat \<Rightarrow> nat \<times> nat" where
  "slice_indices start stop len = (min start len, min stop len)"

text \<open>A value of shape \<open>vs\<close> can be assigned to a target of shape \<open>ts\<close> when, with the
  shapes aligned at their last axis, every size of the value is the target's or 1;
  axes the value has in excess of the target must be leading ones.\<close>

definition broadcastable :: "nat list \<Rightarrow> nat list \<Rightarrow> bool" where
  "broadcastable vs ts =
     (let extra = length vs - length ts;
          vs' = drop extra vs
      in list_all (\<lambda>d. d = 1) (take extra vs)
         \<and> list_all2 (\<lambda>d t. d = t \<or> d = 1) vs' (drop (length ts - length vs') ts))"

definition broadcast_elem :: "'a ndarray \<Rightarrow> nat list \<Rightarrow> nat list \<Rightarrow> 'a" where
  "broadcast_elem v ts tidx =
     (let vs = drop (length (shape v) - length ts) (shape v);
          js = drop (length ts - length vs) tidx
      in data v ! ravel vs (map2 (\<lambda>d j. if d = 1 then 0 else j) vs js))"

text \<open>
  Whether the library of the assigned-to array takes the value at all. NumPy converts
  what it is given, a tensor through \<open>__array__\<close>, which only a tensor in host memory
  has. Torch assigns tensors only, of the element type and on the device of the target.
  NumPy also converts the elements to the target's element type, which is \<open>convert\<close>
  in the assignment below.
\<close>

definition value_check :: "'a ndarray \<Rightarrow> 'a ndarray \<Rightarrow> error option" where
  "value_check out v =
     (case kind out of
        Numpy \<Rightarrow>
          (case kind v of
             Numpy \<Rightarrow> None
           | Torch \<Rightarrow> if device v = Cpu then None else Some TypeError)
      | Torch \<Rightarrow>
          (case kind v of
             Numpy \<Rightarrow> Some TypeError
           | Torch \<Rightarrow>
               if dtype v \<noteq> dtype out \<or> device v \<noteq> device out then Some RuntimeError
               else None))"

fun last_occurrence :: "nat list \<Rightarrow> nat \<Rightarrow> nat option" where
  "last_occurrence [] r = None"
| "last_occurrence (x # xs) r =
     (case last_occurrence xs r of
        Some q \<Rightarrow> Some (Suc q)
      | None \<Rightarrow> if x = r then Some 0 else None)"

text \<open>The entry of \<open>rows\<close> that decides the element at \<open>idx\<close>: an entry naming the
  row of \<open>idx\<close>, the one the host's \<open>order\<close> picks, or the last one where \<open>order\<close>
  picks none that names the row; none when no entry names the row.\<close>

definition deciding :: "'a host \<Rightarrow> nat list \<Rightarrow> nat list \<Rightarrow> nat option" where
  "deciding h rows idx =
     (case order h rows idx of
        None \<Rightarrow> last_occurrence rows (hd idx)
      | Some q \<Rightarrow>
          if q < length rows \<and> rows ! q = hd idx then Some q
          else last_occurrence rows (hd idx))"

text \<open>
  \<open>out[rows, ..., start:stop] = v\<close>. The target has one row for each entry of the
  list, the middle axes of \<open>out\<close> and the width of the clipped slice; \<open>v\<close> is broadcast
  to it. Every check comes before the first write. \<open>assigned\<close> is the element at
  position \<open>n\<close> of \<open>out\<close> after the assignment.
\<close>

definition assigned ::
  "'a host \<Rightarrow> 'a ndarray \<Rightarrow> nat list \<Rightarrow> nat \<Rightarrow> nat \<Rightarrow> 'a ndarray \<Rightarrow> nat \<Rightarrow> 'a" where
  "assigned h out rows start stop v n =
     (let (s0, s1) = slice_indices start stop (last (shape out));
          ts = length rows # butlast (tl (shape out)) @ [s1 - s0];
          idx = unravel (shape out) n;
          c = last idx
      in (case deciding h rows idx of
            None \<Rightarrow> data out ! n
          | Some q \<Rightarrow>
              if s0 \<le> c \<and> c < s1
              then convert h (dtype v) (dtype out)
                     (broadcast_elem v ts (q # butlast (tl idx) @ [c - s0]))
              else data out ! n))"

definition setitem_rows ::
  "'a host \<Rightarrow> 'a ndarray \<Rightarrow> nat list \<Rightarrow> nat \<Rightarrow> nat \<Rightarrow> 'a ndarray \<Rightarrow> error + 'a ndarray" where
  "setitem_rows h out rows start stop v =
     (if length (shape out) < 2 then Inl IndexError
      else if list_ex (\<lambda>r. hd (shape out) \<le> r) rows then Inl IndexError
      else
        (case value_check out v of
           Some e \<Rightarrow> Inl e
         | None \<Rightarrow>
        (case assign_limit h out v of
           Some e \<Rightarrow> Inl e
         | None \<Rightarrow>
             (let (s0, s1) = slice_indices start stop (last (shape out));
                  ts = length rows # butlast (tl (shape out)) @ [s1 - s0]
              in if \<not> broadcastable (shape v) ts then Inl (shape_error (kind out))
                 else Inr (out\<lparr>data :=
                   map (assigned h out rows start stop v) [0..<length (data out)]\<rparr>)))))"

subsection \<open>Wrappers\<close>

definition object_from_ptr :: "'a state \<Rightarrow> nat \<Rightarrow> wrapper option" where
  "object_from_ptr st ptr =
     (if ptr < length (objects st) then Some (objects st ! ptr) else None)"

definition get_array :: "'a state \<Rightarrow> nat \<Rightarrow> 'a ndarray option" where
  "get_array st a = (if a < length (arrays st) then Some (arrays st ! a) else None)"

text \<open>An attribute assignment \<open>storage.f = v\<close> changes the object in place.\<close>

definition update_object :: "'a state \<Rightarrow> nat \<Rightarrow> (wrapper \<Rightarrow> wrapper) \<Rightarrow> 'a state" where
  "update_object st ptr f = st\<lparr>objects := (objects st)[ptr := f (objects st ! ptr)]\<rparr>"

definition new_array :: "'a state \<Rightarrow> 'a ndarray \<Rightarrow> nat \<times> 'a state" where
  "new_array st a = (length (arrays st), st\<lparr>arrays := arrays st @ [a]\<rparr>)"

text \<open>\<open>ArrayWrapper.__init__\<close>: the wrapper keeps a reference to the array it is given
  and a copy of its shape, and takes the origin of the array's backend. The \<open>else\<close>
  branch of the source (an array that is neither kind) has no value in \<open>backend\<close>.\<close>

definition ArrayWrapper :: "'a state \<Rightarrow> nat \<Rightarrow> (error + nat) \<times> 'a state" where
  "ArrayWrapper st a =
     (case get_array st a of
        None \<Rightarrow> (Inl InvalidPointer, st)
      | Some arr \<Rightarrow>
          (let (origin, st1) = (case kind arr of
                                  Numpy \<Rightarrow> numpy_origin st
                                | Torch \<Rightarrow> torch_origin st);
               self = \<lparr>array = Some a, wshape = shape arr, children = [],
                       array_origin = origin\<rparr>
           in (Inr (length (objects st1)), st1\<lparr>objects := objects st1 @ [self]\<rparr>)))"

definition eqs_array_origin :: "'a state \<Rightarrow> nat \<Rightarrow> (error + nat) \<times> 'a state" where
  "eqs_array_origin st this =
     (case object_from_ptr st this of
        None \<Rightarrow> (Inl InvalidPointer, st)
      | Some storage \<Rightarrow> (Inr (array_origin storage), st))"

definition eqs_array_shape :: "'a state \<Rightarrow> nat \<Rightarrow> (error + nat list) \<times> 'a state" where
  "eqs_array_shape st this =
     (case object_from_ptr st this of
        None \<Rightarrow> (Inl InvalidPointer, st)
      | Some storage \<Rightarrow> (Inr (wshape storage), st))"

text \<open>The array a wrapper holds, for a call \<open>storage.array.m(...)\<close>: the attribute is
  \<open>None\<close> after \<open>destroy\<close>, and \<open>None\<close> has no method \<open>m\<close>.\<close>

definition storage_array :: "'a state \<Rightarrow> nat \<Rightarrow> error + 'a ndarray" where
  "storage_array st this =
     (case object_from_ptr st this of
        None \<Rightarrow> Inl InvalidPointer
      | Some storage \<Rightarrow>
          (case array storage of
             None \<Rightarrow> Inl AttributeError
           | Some a \<Rightarrow>
               (case get_array st a of
                  None \<Rightarrow> Inl InvalidPointer
                | Some arr \<Rightarrow> Inr arr)))"

text \<open>The callbacks that make a host call depending on a \<open>host\<close> take it as their
  first argument.\<close>

definition eqs_array_reshape ::
  "'a host \<Rightarrow> 'a state \<Rightarrow> nat \<Rightarrow> nat list \<Rightarrow> (error + unit) \<times> 'a state" where
  "eqs_array_reshape h st this shape_arg =
     (case storage_array st this of
        Inl e \<Rightarrow> (Inl e, st)
      | Inr arr \<Rightarrow>
          (case ndarray_reshape h arr shape_arg of
             Inl e \<Rightarrow> (Inl e, st)
           | Inr arr' \<Rightarrow>
               (let (a', st1) = new_array st arr';
                    st2 = update_object st1 this (\<lambda>w. w\<lparr>array := Some a'\<rparr>)
                in (Inr (), update_object st2 this (\<lambda>w. w\<lparr>wshape := shape_arg\<rparr>)))))"

definition eqs_array_swap_axes ::
  "'a state \<Rightarrow> nat \<Rightarrow> nat \<Rightarrow> nat \<Rightarrow> (error + unit) \<times> 'a state" where
  "eqs_array_swap_axes st this axis_1 axis_2 =
     (case storage_array st this of
        Inl e \<Rightarrow> (Inl e, st)
      | Inr arr \<Rightarrow>
          (case ndarray_swapaxes arr axis_1 axis_2 of
             Inl e \<Rightarrow> (Inl e, st)
           | Inr arr' \<Rightarrow>
               (let (a', st1) = new_array st arr';
                    st2 = update_object st1 this (\<lambda>w. w\<lparr>array := Some a'\<rparr>)
                in (Inr (), update_object st2 this (\<lambda>w. w\<lparr>wshape := shape arr'\<rparr>)))))"

definition eqs_array_create ::
  "'a host \<Rightarrow> ('a::zero) state \<Rightarrow> nat \<Rightarrow> nat list \<Rightarrow> (error + nat) \<times> 'a state" where
  "eqs_array_create h st this shape_arg =
     (case storage_array st this of
        Inl e \<Rightarrow> (Inl e, st)
      | Inr arr \<Rightarrow>
          (let t = dtype arr
           in (case (case kind arr of
                       Numpy \<Rightarrow> np_zeros h shape_arg t
                     | Torch \<Rightarrow> torch_zeros h shape_arg t (device arr)) of
                 Inl e \<Rightarrow> (Inl e, st)
               | Inr zeros \<Rightarrow>
                   (let (a', st1) = new_array st zeros
                    in (case ArrayWrapper st1 a' of
                          (Inl e, st2) \<Rightarrow> (Inl e, st2)
                        | (Inr wrapper, st2) \<Rightarrow>
                            (Inr wrapper,
                             update_object st2 this
                               (\<lambda>w. w\<lparr>children := children w @ [wrapper]\<rparr>)))))))"

definition eqs_array_copy :: "'a state \<Rightarrow> nat \<Rightarrow> (error + nat) \<times> 'a state" where
  "eqs_array_copy st this =
     (case storage_array st this of
        Inl e \<Rightarrow> (Inl e, st)
      | Inr arr \<Rightarrow>
          (let (a', st1) = new_array st arr
           in ArrayWrapper st1 a'))"

definition eqs_array_destroy :: "'a state \<Rightarrow> nat \<Rightarrow> (error + unit) \<times> 'a state" where
  "eqs_array_destroy st this =
     (case object_from_ptr st this of
        None \<Rightarrow> (Inl InvalidPointer, st)
      | Some storage \<Rightarrow> (Inr (), update_object st this (\<lambda>w. w\<lparr>array := None\<rparr>)))"

text \<open>
  \<open>_eqs_array_move_samples_from\<close>. The entries of \<open>samples\<close> are the pairs
  \<open>(input, output)\<close> of the C structure. The right-hand side
  \<open>input[input_samples, ..., :]\<close> is evaluated first, then assigned to
  \<open>output[output_samples, ..., properties]\<close>; subscripting \<open>None\<close> is a \<open>TypeError\<close>.
  The assignment writes into the array object the wrapper refers to.
\<close>

definition eqs_array_move_samples_from ::
  "'a host \<Rightarrow> 'a state \<Rightarrow> nat \<Rightarrow> nat \<Rightarrow> (nat \<times> nat) list \<Rightarrow> nat \<Rightarrow> nat
     \<Rightarrow> (error + unit) \<times> 'a state" where
  "eqs_array_move_samples_from h st this input samples property_start property_end =
     (case object_from_ptr st input of
        None \<Rightarrow> (Inl InvalidPointer, st)
      | Some input_storage \<Rightarrow>
     (case object_from_ptr st this of
        None \<Rightarrow> (Inl InvalidPointer, st)
      | Some output_storage \<Rightarrow>
          (let input_samples = map fst samples;
               output_samples = map snd samples
           in (case array input_storage of
                 None \<Rightarrow> (Inl TypeError, st)
               | Some ia \<Rightarrow>
              (case get_array st ia of
                 None \<Rightarrow> (Inl InvalidPointer, st)
               | Some inp \<Rightarrow>
              (case getitem_rows h inp input_samples of
                 Inl e \<Rightarrow> (Inl e, st)
               | Inr v \<Rightarrow>
              (case array output_storage of
                 None \<Rightarrow> (Inl TypeError, st)
               | Some oa \<Rightarrow>
              (case get_array st oa of
                 None \<Rightarrow> (Inl InvalidPointer, st)
               | Some out \<Rightarrow>
              (case setitem_rows h out output_samples property_start property_end v of
                 Inl e \<Rightarrow> (Inl e, st)
               | Inr out' \<Rightarrow>
                   (Inr (), st\<lparr>arrays := (arrays st)[oa := out']\<rparr>))))))))))"

subsection \<open>Invariants\<close>

text \<open>The cached origins agree with the origin table: a cached id is the id the
  table gives to the name it was registered under.\<close>

definition origins_consistent :: "'a state \<Rightarrow> bool" where
  "origins_consistent st =
     ((case NUMPY_STORAGE_ORIGIN st of
         None \<Rightarrow> True
       | Some v \<Rightarrow> index_of (dunder_name @ ''.numpy'') (registry st) = Some v)
      \<and> (case TORCH_STORAGE_ORIGIN st of
            None \<Rightarrow> True
          | Some v \<Rightarrow> index_of (dunder_name @ ''.torch'') (registry st) = Some v))"

subsection \<open>Example states\<close>

text \<open>A host for the examples: at most 32 axes, sizes and element counts below
  \<open>2 ^ 63\<close>, arrays that record no gradients, integer elements that every
  conversion keeps, and assignments in the order of the index list.

  The state of a fresh process, and a state holding the arrays of the
  specification's scenario: a destination of shape (4, 2, 5) filled with zero, a source
  of shape (3, 2, 5) filled with its row index, a source of shape (3, 2, 3) filled
  with its row index, and a tensor in host memory with the elements of the latter.\<close>

definition example_host :: "int host" where
  "example_host =
     \<lparr>shape_limit = (\<lambda>k s. if 32 < length s \<or> list_ex (\<lambda>d. 2 ^ 63 \<le> int d) s
                                  \<or> 2 ^ 63 \<le> int (prod_list (filter (\<lambda>d. 0 < d) s))
                               then Some (shape_error k) else None),
      assign_limit = (\<lambda>out v. None),
      cast = (\<lambda>s t x. x),
      order = (\<lambda>rows idx. None)\<rparr>"

definition initial_state :: "int state" where
  "initial_state = \<lparr>arrays = [], objects = [], registry = [],
     NUMPY_STORAGE_ORIGIN = None, TORCH_STORAGE_ORIGIN = None\<rparr>"

definition scenario_dst :: "int ndarray" where
  "scenario_dst = \<lparr>kind = Numpy, dtype = Int64, device = Cpu, shape = [4, 2, 5],
     data = replicate 40 0\<rparr>"

definition scenario_src :: "int ndarray" where
  "scenario_src = \<lparr>kind = Numpy, dtype = Int64, device = Cpu, shape = [3, 2, 5],
     data = replicate 10 0 @ replicate 10 1 @ replicate 10 2\<rparr>"

definition narrow_src :: "int ndarray" where
  "narrow_src = \<lparr>kind = Numpy, dtype = Int64, device = Cpu, shape = [3, 2, 3],
     data = replicate 6 0 @ replicate 6 1 @ replicate 6 2\<rparr>"

definition tensor_src :: "int ndarray" where
  "tensor_src = \<lparr>kind = Torch, dtype = Int64, device = Cpu, shape = [3, 2, 3],
     data = replicate 6 0 @ replicate 6 1 @ replicate 6 2\<rparr>"

definition scenario_state :: "int state" where
  "scenario_state =
     \<lparr>arrays = [scenario_dst, scenario_src, narrow_src, tensor_src],
      objects =
        [\<lparr>array = Some 0, wshape = [4, 2, 5], children = [], array_origin = 0\<rparr>,
         \<lparr>array = Some 1, wshape = [3, 2, 5], children = [], array_origin = 0\<rparr>,
         \<lparr>array = Some 2, wshape = [3, 2, 3], children = [], array_origin = 0\<rparr>,
         \<lparr>array = Some 3, wshape = [3, 2, 3], children = [], array_origin = 1\<rparr>],
      registry = [''equistore.data.numpy'', ''equistore.data.torch''],
      NUMPY_STORAGE_ORIGIN = Some 0, TORCH_STORAGE_ORIGIN = Some 1\<rparr>"

text \<open>The cached shape of every live wrapper is the shape of the array it refers to.\<close>

definition shapes_consistent :: "'a state \<Rightarrow> bool" where
  "shapes_consistent st =
     list_all (\<lambda>w. case array w of
                     None \<Rightarrow> True
                   | Some a \<Rightarrow>
                       (case get_array st a of
                          None \<Rightarrow> False
                        | Some arr \<Rightarrow> wshape w = shape arr))
              (objects st)"

text \<open>The origin \<open>ArrayWrapper.__init__\<close> takes for an array of a given kind.\<close>

definition backend_origin :: "'a state \<Rightarrow> backend \<Rightarrow> nat \<times> 'a state" where
  "backend_origin st k = (case k of Numpy \<Rightarrow> numpy_origin st | Torch \<Rightarrow> torch_origin st)"

text \<open>The destination of the scenario after the move from the (3, 2, 3) source, and
  after a move whose two pairs name row 1; a destination tensor of another element type
  than \<open>tensor_src\<close>, and a state holding the two tensors.\<close>

definition scenario_result :: "int ndarray" where
  "scenario_result = \<lparr>kind = Numpy, dtype = Int64, device = Cpu, shape = [4, 2, 5],
     data = replicate 30 0 @ [0, 2, 2, 2, 0, 0, 2, 2, 2, 0]\<rparr>"

definition duplicate_result :: "int ndarray" where
  "duplicate_result = \<lparr>kind = Numpy, dtype = Int64, device = Cpu, shape = [4, 2, 5],
     data = replicate 10 0 @ [0, 2, 2, 2, 0, 0, 2, 2, 2, 0] @ replicate 20 0\<rparr>"

definition tensor_dst :: "int ndarray" where
  "tensor_dst = \<lparr>kind = Torch, dtype = Int32, device = Cpu, shape = [4, 2, 5],
     data = replicate 40 0\<rparr>"

definition tensor_state :: "int state" where
  "tensor_state =
     \<lparr>arrays = [tensor_dst, tensor_src],
      objects =
        [\<lparr>array = Some 0, wshape = [4, 2, 5], children = [], array_origin = 0\<rparr>,
         \<lparr>array = Some 1, wshape = [3, 2, 3], children = [], array_origin = 0\<rparr>],
      registry = [''equistore.data.torch''],
      NUMPY_STORAGE_ORIGIN = None, TORCH_STORAGE_ORIGIN = Some 0\<rparr>"

text \<open>The (3, 2, 3) source after a move of its row 2 to its own row 0.\<close>

definition self_result :: "int ndarray" where
  "self_result = \<lparr>kind = Numpy, dtype = Int64, device = Cpu, shape = [3, 2, 3],
     data = replicate 6 2 @ replicate 6 1 @ replicate 6 2\<rparr>"

text \<open>The module global that holds the origin of a backend.\<close>

definition cached_origin :: "'a state \<Rightarrow> backend \<Rightarrow> nat option" where
  "cached_origin st k =
     (case k of Numpy \<Rightarrow> NUMPY_STORAGE_ORIGIN st | Torch \<Rightarrow> TORCH_STORAGE_ORIGIN st)"

text \<open>
  The calls that change the array of a wrapper, and sequences of them on one wrapper,
  for the statement that a copy and its original do not change one another.
  \<open>apart st p q a w arr\<close>: the wrappers \<open>p\<close> and \<open>q\<close> are two, \<open>p\<close> is \<open>w\<close> and refers to
  the array \<open>arr\<close> at the address \<open>a\<close>, and \<open>q\<close> does not refer to that address.
\<close>

datatype mutation =
    Reshape "nat list"
  | SwapAxes nat nat
  | MoveSamplesFrom nat "(nat \<times> nat) list" nat nat

fun mutate :: "'a host \<Rightarrow> 'a state \<Rightarrow> nat \<Rightarrow> mutation \<Rightarrow> 'a state" where
  "mutate h st this (Reshape s) = snd (eqs_array_reshape h st this s)"
| "mutate h st this (SwapAxes axis_1 axis_2) = snd (eqs_array_swap_axes st this axis_1 axis_2)"
| "mutate h st this (MoveSamplesFrom input samples property_start property_end) =
     snd (eqs_array_move_samples_from h st this input samples property_start property_end)"

definition mutate_all :: "'a host \<Rightarrow> 'a state \<Rightarrow> nat \<Rightarrow> mutation list \<Rightarrow> 'a state" where
  "mutate_all h st this ms = foldl (\<lambda>s m. mutate h s this m) st ms"

definition apart :: "'a state \<Rightarrow> nat \<Rightarrow> nat \<Rightarrow> nat \<Rightarrow> wrapper \<Rightarrow> 'a ndarray \<Rightarrow> bool" where
  "apart st p q a w arr =
     (p \<noteq> q \<and> p < length (objects st) \<and> objects st ! p = w \<and> array w = Some a
      \<and> a < length (arrays st) \<and> arrays st ! a = arr
      \<and> array (objects st ! q) \<noteq> Some a)"

section \<open>Properties\<close>

subsection \<open>The origin table and the cached origins\<close>

lemma index_of_Some: "index_of x xs = Some i \<Longrightarrow> i < length xs \<and> xs ! i = x"
  by (induction xs arbitrary: i) (auto split: if_splits)

lemma index_of_None: "(index_of x xs = None) = (x \<notin> set xs)"
  by (induction xs) auto

lemma index_of_append:
  "index_of x (xs @ [y]) =
     (case index_of x xs of
        Some i \<Rightarrow> Some i
      | None \<Rightarrow> if x = y then Some (length xs) else None)"
  by (induction xs) (auto split: option.splits)

lemma register_found:
  "eqs_register_data_origin name reg = (i, reg') \<Longrightarrow> index_of name reg' = Some i"
  by (auto simp: eqs_register_data_origin_def index_of_append split: option.splits)

lemma register_keeps:
  "eqs_register_data_origin name reg = (i, reg') \<Longrightarrow> index_of other reg = Some k
     \<Longrightarrow> index_of other reg' = Some k"
  by (auto simp: eqs_register_data_origin_def index_of_append split: option.splits)

lemma register_again:
  "index_of name reg = Some i \<Longrightarrow> eqs_register_data_origin name reg = (i, reg)"
  by (simp add: eqs_register_data_origin_def)

lemma index_of_inj:
  "index_of x xs = Some i \<Longrightarrow> index_of y xs = Some i \<Longrightarrow> x = y"
  using index_of_Some by metis

lemma numpy_origin_cached:
  "numpy_origin st = (v, st') \<Longrightarrow> NUMPY_STORAGE_ORIGIN st' = Some v"
  by (auto simp: numpy_origin_def Let_def split: option.splits prod.splits)

lemma torch_origin_cached:
  "torch_origin st = (v, st') \<Longrightarrow> TORCH_STORAGE_ORIGIN st' = Some v"
  by (auto simp: torch_origin_def Let_def split: option.splits prod.splits)

lemma numpy_origin_twice:
  "numpy_origin st = (v, st') \<Longrightarrow> numpy_origin st' = (v, st')"
  using numpy_origin_cached [of st v st'] by (simp add: numpy_origin_def)

lemma torch_origin_twice:
  "torch_origin st = (v, st') \<Longrightarrow> torch_origin st' = (v, st')"
  using torch_origin_cached [of st v st'] by (simp add: torch_origin_def)

lemma numpy_origin_consistent:
  "origins_consistent st \<Longrightarrow> numpy_origin st = (v, st')
     \<Longrightarrow> origins_consistent st' \<and> index_of (dunder_name @ ''.numpy'') (registry st') = Some v
         \<and> TORCH_STORAGE_ORIGIN st' = TORCH_STORAGE_ORIGIN st"
  by (auto simp: numpy_origin_def origins_consistent_def Let_def
           split: option.splits prod.splits dest: register_found register_keeps)

lemma torch_origin_consistent:
  "origins_consistent st \<Longrightarrow> torch_origin st = (v, st')
     \<Longrightarrow> origins_consistent st' \<and> index_of (dunder_name @ ''.torch'') (registry st') = Some v
         \<and> NUMPY_STORAGE_ORIGIN st' = NUMPY_STORAGE_ORIGIN st"
  by (auto simp: torch_origin_def origins_consistent_def Let_def
           split: option.splits prod.splits dest: register_found register_keeps)

lemma names_differ: "dunder_name @ ''.numpy'' \<noteq> dunder_name @ ''.torch''"
  by simp

lemma origins_differ:
  assumes "origins_consistent st" "NUMPY_STORAGE_ORIGIN st = Some n" "TORCH_STORAGE_ORIGIN st = Some t"
  shows "n \<noteq> t"
  using assms index_of_inj [of "dunder_name @ ''.numpy''" "registry st" n "dunder_name @ ''.torch''"]
  by (auto simp: origins_consistent_def)

text \<open>
  Claim C9. Origin registration is idempotent and stable: asking for the origin of a
  backend twice gives the same id, the second call finding the cached id and changing
  nothing; the NumPy and the torch backend receive distinct ids, whichever registers
  first, and the first keeps its id after the second has registered; and registering
  a name, then another name, then the first again gives exactly two distinct ids, the
  third equal to the first.
\<close>

theorem origin_registration_idempotent:
  assumes "origins_consistent st" and "a \<noteq> b"
  shows "numpy_origin (snd (numpy_origin st)) = numpy_origin st
       \<and> torch_origin (snd (torch_origin st)) = torch_origin st
       \<and> fst (torch_origin (snd (numpy_origin st))) \<noteq> fst (numpy_origin st)
       \<and> fst (numpy_origin (snd (torch_origin st))) \<noteq> fst (torch_origin st)
       \<and> fst (numpy_origin (snd (torch_origin (snd (numpy_origin st))))) = fst (numpy_origin st)
       \<and> origins_consistent (snd (numpy_origin st))
       \<and> origins_consistent (snd (torch_origin st))
       \<and> (let (i1, r1) = eqs_register_data_origin a reg;
               (i2, r2) = eqs_register_data_origin b r1;
               (i3, r3) = eqs_register_data_origin a r2
           in i3 = i1 \<and> i2 \<noteq> i1 \<and> card {i1, i2, i3} = 2 \<and> r3 = r2)"
proof -
  obtain n s1 where n: "numpy_origin st = (n, s1)" by (cases "numpy_origin st")
  obtain t s2 where t: "torch_origin st = (t, s2)" by (cases "torch_origin st")
  obtain t' s3 where t': "torch_origin s1 = (t', s3)" by (cases "torch_origin s1")
  obtain n' s4 where n': "numpy_origin s2 = (n', s4)" by (cases "numpy_origin s2")
  obtain n'' s5 where n'': "numpy_origin s3 = (n'', s5)" by (cases "numpy_origin s3")
  note c1 = numpy_origin_consistent [OF assms(1) n]
  note c2 = torch_origin_consistent [OF assms(1) t]
  from c1 have k1: "origins_consistent s1" by simp
  from c2 have k2: "origins_consistent s2" by simp
  note c3 = torch_origin_consistent [OF k1 t']
  note c4 = numpy_origin_consistent [OF k2 n']
  have p1: "numpy_origin s1 = (n, s1)" by (rule numpy_origin_twice [OF n])
  have p2: "torch_origin s2 = (t, s2)" by (rule torch_origin_twice [OF t])
  have m3: "NUMPY_STORAGE_ORIGIN s3 = Some n"
    using c3 numpy_origin_cached [OF n] by simp
  have t3: "TORCH_STORAGE_ORIGIN s3 = Some t'" by (rule torch_origin_cached [OF t'])
  have p3: "t' \<noteq> n" using origins_differ [of s3 n t'] c3 m3 t3 by auto
  have m4: "TORCH_STORAGE_ORIGIN s4 = Some t"
    using c4 torch_origin_cached [OF t] by simp
  have t4: "NUMPY_STORAGE_ORIGIN s4 = Some n'" by (rule numpy_origin_cached [OF n'])
  have p4: "n' \<noteq> t" using origins_differ [of s4 n' t] c4 m4 t4 by auto
  have p5: "n'' = n" using n'' m3 by (simp add: numpy_origin_def)
  obtain i1 r1 where a1: "eqs_register_data_origin a reg = (i1, r1)"
    by (cases "eqs_register_data_origin a reg")
  obtain i2 r2 where a2: "eqs_register_data_origin b r1 = (i2, r2)"
    by (cases "eqs_register_data_origin b r1")
  have f1: "index_of a r1 = Some i1" by (rule register_found [OF a1])
  have f2: "index_of a r2 = Some i1" by (rule register_keeps [OF a2 f1])
  have f3: "index_of b r2 = Some i2" by (rule register_found [OF a2])
  have a3: "eqs_register_data_origin a r2 = (i1, r2)" by (rule register_again [OF f2])
  have ne: "i2 \<noteq> i1" using index_of_inj [OF f2, of b] f3 assms(2) by auto
  have cd: "card {i1, i2, i1} = 2" using ne by (simp add: insert_commute card_insert_if)
  show ?thesis
    using n t t' n' n'' p1 p2 p3 p4 p5 k1 k2 a1 a2 a3 ne cd by simp
qed

theorem origin_registration_idempotent_witness:
  "origins_consistent initial_state \<and> ''alpha'' \<noteq> ''beta''
   \<and> fst (numpy_origin initial_state) = 0
   \<and> fst (torch_origin (snd (numpy_origin initial_state))) = 1
   \<and> fst (numpy_origin (snd (torch_origin (snd (numpy_origin initial_state))))) = 0
   \<and> fst (eqs_register_data_origin ''alpha'' []) = 0"
proof -
  have h: "origins_consistent initial_state"
    by (simp add: origins_consistent_def initial_state_def)
  have d: "''alpha'' \<noteq> ''beta''" by simp
  have v: "fst (numpy_origin initial_state) = 0"
    by (simp add: numpy_origin_def initial_state_def eqs_register_data_origin_def)
  have w: "fst (torch_origin (snd (numpy_origin initial_state))) = 1"
    by (simp add: numpy_origin_def torch_origin_def initial_state_def
          eqs_register_data_origin_def dunder_name_def)
  have r: "fst (eqs_register_data_origin ''alpha'' []) = 0"
    by (simp add: eqs_register_data_origin_def)
  from origin_registration_idempotent [OF h d, of "[]"] h d v w r show ?thesis
    by simp
qed

subsection \<open>Destroying a wrapper\<close>

text \<open>
  Claim C10. \<open>destroy\<close> sets the array reference of the wrapper to \<open>None\<close> and
  changes nothing else, and a second \<open>destroy\<close> of the same wrapper succeeds and
  leaves the state as the first call left it.
\<close>

theorem destroy_idempotent:
  assumes "this < length (objects st)"
  shows "eqs_array_destroy st this =
           (Inr (), st\<lparr>objects := (objects st)[this := (objects st ! this)\<lparr>array := None\<rparr>]\<rparr>)
       \<and> array (objects (snd (eqs_array_destroy st this)) ! this) = None
       \<and> eqs_array_destroy (snd (eqs_array_destroy st this)) this =
           (Inr (), snd (eqs_array_destroy st this))"
  using assms
  by (simp add: eqs_array_destroy_def object_from_ptr_def update_object_def)

theorem destroy_idempotent_witness:
  "0 < length (objects scenario_state)
   \<and> fst (eqs_array_destroy scenario_state 0) = Inr ()
   \<and> array (objects (snd (eqs_array_destroy scenario_state 0)) ! 0) = None
   \<and> eqs_array_destroy (snd (eqs_array_destroy scenario_state 0)) 0 =
       (Inr (), snd (eqs_array_destroy scenario_state 0))"
proof -
  have h: "0 < length (objects scenario_state)"
    by (simp add: scenario_state_def)
  note r = destroy_idempotent [OF h]
  have a: "fst (eqs_array_destroy scenario_state 0) = Inr ()"
    using r by simp
  show ?thesis
    using h a r by blast
qed

subsection \<open>Row-major indexing\<close>

lemma length_unravel: "length (unravel sh n) = length sh"
  by (induction sh arbitrary: n) auto

lemma valid_index_length: "valid_index sh idx \<Longrightarrow> length idx = length sh"
  by (simp add: valid_index_def list_all2_lengthD)

lemma valid_index_Cons:
  "valid_index (d # ds) idx = (\<exists>j js. idx = j # js \<and> j < d \<and> valid_index ds js)"
  by (cases idx) (auto simp: valid_index_def)

lemma valid_index_Nil: "valid_index [] idx = (idx = [])"
  by (simp add: valid_index_def)

lemma ravel_less: "valid_index sh idx \<Longrightarrow> ravel sh idx < prod_list sh"
proof (induction sh arbitrary: idx)
  case Nil
  then show ?case by (simp add: valid_index_Nil)
next
  case (Cons d ds)
  then obtain j js where idx: "idx = j # js" and j: "j < d" and v: "valid_index ds js"
    by (auto simp: valid_index_Cons)
  have r: "ravel ds js < prod_list ds" by (rule Cons.IH [OF v])
  have "j * prod_list ds + ravel ds js < Suc j * prod_list ds" using r by simp
  also have "\<dots> \<le> d * prod_list ds" using j by (intro mult_le_mono1) simp
  finally show ?case by (simp add: idx)
qed

lemma unravel_valid: "n < prod_list sh \<Longrightarrow> valid_index sh (unravel sh n)"
proof (induction sh arbitrary: n)
  case Nil
  then show ?case by (simp add: valid_index_def)
next
  case (Cons d ds)
  have pos: "0 < prod_list ds" using Cons.prems by (cases "prod_list ds = 0") auto
  have "n div prod_list ds < d"
    using Cons.prems pos by (simp add: less_mult_imp_div_less)
  moreover have "valid_index ds (unravel ds (n mod prod_list ds))"
    using pos by (intro Cons.IH) simp
  ultimately show ?case by (simp add: valid_index_Cons)
qed

lemma ravel_unravel: "n < prod_list sh \<Longrightarrow> ravel sh (unravel sh n) = n"
proof (induction sh arbitrary: n)
  case Nil
  then show ?case by simp
next
  case (Cons d ds)
  have pos: "0 < prod_list ds" using Cons.prems by (cases "prod_list ds = 0") auto
  have "ravel ds (unravel ds (n mod prod_list ds)) = n mod prod_list ds"
    using pos by (intro Cons.IH) simp
  then show ?case by simp
qed

lemma unravel_ravel: "valid_index sh idx \<Longrightarrow> unravel sh (ravel sh idx) = idx"
proof (induction sh arbitrary: idx)
  case Nil
  then show ?case by (simp add: valid_index_Nil)
next
  case (Cons d ds)
  then obtain j js where idx: "idx = j # js" and j: "j < d" and v: "valid_index ds js"
    by (auto simp: valid_index_Cons)
  have r: "ravel ds js < prod_list ds" by (rule ravel_less [OF v])
  have "unravel ds (ravel ds js) = js" by (rule Cons.IH [OF v])
  then show ?case using r by (simp add: idx)
qed

lemma length_swap: "length (swap i j xs) = length xs"
  by (simp add: swap_def)

lemma swap_swap: "i < length xs \<Longrightarrow> j < length xs \<Longrightarrow> swap i j (swap i j xs) = xs"
  by (auto simp: swap_def list_eq_iff_nth_eq nth_list_update)

lemma prod_list_swap:
  "i < length xs \<Longrightarrow> j < length xs \<Longrightarrow> prod_list (swap i j (xs::nat list)) = prod_list xs"
proof -
  assume a: "i < length xs" "j < length xs"
  have "mset (swap i j xs) = mset xs"
    unfolding swap_def using a by (simp add: mset_swap)
  then have "prod_mset (mset (swap i j xs)) = prod_mset (mset xs)" by simp
  then show ?thesis by (simp add: prod_mset_prod_list)
qed

lemma valid_index_swap:
  assumes "valid_index sh idx" "i < length sh" "j < length sh"
  shows "valid_index (swap i j sh) (swap i j idx)"
  using assms
  by (auto simp: valid_index_def swap_def list_all2_conv_all_nth nth_list_update)

subsection \<open>Swapping two axes of an array\<close>

lemma swapaxes_twice:
  assumes len: "length (data a) = prod_list (shape a)"
    and i: "i < length (shape a)" and j: "j < length (shape a)"
    and b: "ndarray_swapaxes a i j = Inr b"
  shows "ndarray_swapaxes b i j = Inr a"
proof -
  let ?s = "swap i j (shape a)"
  have bdef: "b = a\<lparr>shape := ?s,
      data := map (\<lambda>n. elem a (swap i j (unravel ?s n))) [0..<prod_list ?s]\<rparr>"
    using b i j by (simp add: ndarray_swapaxes_def Let_def)
  have sb: "shape b = ?s" by (simp add: bdef)
  have ss: "swap i j ?s = shape a" using i j by (rule swap_swap)
  have ps: "prod_list ?s = prod_list (shape a)" using i j by (rule prod_list_swap)
  have pt: "\<And>n. n < prod_list (shape a)
      \<Longrightarrow> elem b (swap i j (unravel (shape a) n)) = data a ! n"
  proof -
    fix n assume n: "n < prod_list (shape a)"
    let ?idx = "unravel (shape a) n"
    have v: "valid_index (shape a) ?idx" by (rule unravel_valid [OF n])
    have v': "valid_index ?s (swap i j ?idx)" by (rule valid_index_swap [OF v i j])
    have m: "ravel ?s (swap i j ?idx) < prod_list ?s" by (rule ravel_less [OF v'])
    have li: "length ?idx = length (shape a)" by (rule length_unravel)
    have "elem b (swap i j ?idx) = data b ! ravel ?s (swap i j ?idx)"
      by (simp add: elem_def sb)
    also have "\<dots> = elem a (swap i j (unravel ?s (ravel ?s (swap i j ?idx))))"
      using m by (simp add: bdef)
    also have "\<dots> = elem a (swap i j (swap i j ?idx))"
      by (simp add: unravel_ravel [OF v'])
    also have "\<dots> = elem a ?idx" using i j li by (simp add: swap_swap)
    also have "\<dots> = data a ! n" by (simp add: elem_def ravel_unravel [OF n])
    finally show "elem b (swap i j ?idx) = data a ! n" .
  qed
  have "map (\<lambda>n. elem b (swap i j (unravel (shape a) n))) [0..<prod_list (shape a)]
        = map (\<lambda>n. data a ! n) [0..<prod_list (shape a)]"
    using pt by (intro map_cong) auto
  also have "\<dots> = data a" by (simp add: len [symmetric] map_nth)
  finally have d: "map (\<lambda>n. elem b (swap i j (unravel (shape a) n))) [0..<prod_list (shape a)]
        = data a" .
  have ib: "i < length (shape b)" "j < length (shape b)"
    using i j by (simp_all add: sb length_swap)
  show ?thesis
    using ib d by (simp add: ndarray_swapaxes_def Let_def sb ss) (simp add: bdef)
qed

lemma swapaxes_shape:
  "ndarray_swapaxes a i j = Inr b \<Longrightarrow> shape b = swap i j (shape a)
     \<and> kind b = kind a \<and> dtype b = dtype a \<and> device b = device a
     \<and> length (data b) = prod_list (shape b)"
  by (auto simp: ndarray_swapaxes_def Let_def split: if_splits)

subsection \<open>What the callbacks do to the state\<close>

lemma shapes_consistent_iff:
  "shapes_consistent st =
     (\<forall>p a. p < length (objects st) \<longrightarrow> array (objects st ! p) = Some a
        \<longrightarrow> a < length (arrays st) \<and> wshape (objects st ! p) = shape (arrays st ! a))"
  by (auto simp: shapes_consistent_def list_all_length get_array_def
           split: option.splits if_splits)

lemma numpy_origin_frame:
  "arrays (snd (numpy_origin st)) = arrays st \<and> objects (snd (numpy_origin st)) = objects st"
  by (simp add: numpy_origin_def Let_def split: option.splits prod.splits)

lemma torch_origin_frame:
  "arrays (snd (torch_origin st)) = arrays st \<and> objects (snd (torch_origin st)) = objects st"
  by (simp add: torch_origin_def Let_def split: option.splits prod.splits)

lemma backend_origin_frame:
  "arrays (snd (backend_origin st k)) = arrays st
   \<and> objects (snd (backend_origin st k)) = objects st"
  by (cases k) (simp_all add: backend_origin_def numpy_origin_frame torch_origin_frame)

lemma ArrayWrapper_result:
  assumes "a < length (arrays st)"
  shows "fst (ArrayWrapper st a) = Inr (length (objects st))
       \<and> arrays (snd (ArrayWrapper st a)) = arrays st
       \<and> objects (snd (ArrayWrapper st a)) =
           objects st @ [\<lparr>array = Some a, wshape = shape (arrays st ! a), children = [],
                          array_origin = fst (backend_origin st (kind (arrays st ! a)))\<rparr>]
       \<and> registry (snd (ArrayWrapper st a)) = registry (snd (backend_origin st (kind (arrays st ! a))))
       \<and> NUMPY_STORAGE_ORIGIN (snd (ArrayWrapper st a)) =
           NUMPY_STORAGE_ORIGIN (snd (backend_origin st (kind (arrays st ! a))))
       \<and> TORCH_STORAGE_ORIGIN (snd (ArrayWrapper st a)) =
           TORCH_STORAGE_ORIGIN (snd (backend_origin st (kind (arrays st ! a))))"
  using assms numpy_origin_frame [of st] torch_origin_frame [of st]
  by (cases "kind (arrays st ! a)")
     (auto simp: ArrayWrapper_def get_array_def Let_def backend_origin_def split: prod.splits)

lemma ArrayWrapper_invalid:
  "\<not> a < length (arrays st) \<Longrightarrow> ArrayWrapper st a = (Inl InvalidPointer, st)"
  by (simp add: ArrayWrapper_def get_array_def)

lemma storage_array_Inr:
  "storage_array st this = Inr arr \<Longrightarrow>
     this < length (objects st)
     \<and> (\<exists>a. array (objects st ! this) = Some a \<and> a < length (arrays st) \<and> arrays st ! a = arr)"
  by (auto simp: storage_array_def object_from_ptr_def get_array_def
           split: option.splits if_splits)

lemma reshape_result:
  assumes "storage_array st this = Inr arr" "prod_list s = prod_list (shape arr)"
    and "shape_limit h (kind arr) s = None"
  shows "eqs_array_reshape h st this s =
    (Inr (), st\<lparr>arrays := arrays st @ [arr\<lparr>shape := s\<rparr>],
                objects := (objects st)[this := (objects st ! this)
                   \<lparr>array := Some (length (arrays st)), wshape := s\<rparr>]\<rparr>)"
  using assms storage_array_Inr [OF assms(1)]
  by (auto simp: eqs_array_reshape_def ndarray_reshape_def new_array_def update_object_def Let_def)

lemma reshape_failure:
  assumes "storage_array st this = Inr arr" "prod_list s \<noteq> prod_list (shape arr)"
    and "shape_limit h (kind arr) s = None"
  shows "eqs_array_reshape h st this s = (Inl (shape_error (kind arr)), st)"
  using assms by (simp add: eqs_array_reshape_def ndarray_reshape_def)

lemma reshape_refused:
  assumes "storage_array st this = Inr arr" "shape_limit h (kind arr) s = Some e"
  shows "eqs_array_reshape h st this s = (Inl e, st)"
  using assms by (simp add: eqs_array_reshape_def ndarray_reshape_def)

lemma reshape_no_array:
  "storage_array st this = Inl e \<Longrightarrow> eqs_array_reshape h st this s = (Inl e, st)"
  by (simp add: eqs_array_reshape_def)

lemma swap_axes_result:
  assumes "storage_array st this = Inr arr" "ndarray_swapaxes arr i j = Inr arr'"
  shows "eqs_array_swap_axes st this i j =
    (Inr (), st\<lparr>arrays := arrays st @ [arr'],
                objects := (objects st)[this := (objects st ! this)
                   \<lparr>array := Some (length (arrays st)), wshape := shape arr'\<rparr>]\<rparr>)"
  using assms storage_array_Inr [OF assms(1)]
  by (auto simp: eqs_array_swap_axes_def new_array_def update_object_def Let_def)

lemma swap_axes_failure:
  assumes "storage_array st this = Inr arr" "ndarray_swapaxes arr i j = Inl e"
  shows "eqs_array_swap_axes st this i j = (Inl e, st)"
  using assms by (simp add: eqs_array_swap_axes_def)

lemma swap_axes_no_array:
  "storage_array st this = Inl e \<Longrightarrow> eqs_array_swap_axes st this i j = (Inl e, st)"
  by (simp add: eqs_array_swap_axes_def)

lemma storage_array_after_replace:
  assumes "this < length (objects st)"
  shows "storage_array (st\<lparr>arrays := arrays st @ [new],
            objects := (objects st)[this := (objects st ! this)
               \<lparr>array := Some (length (arrays st)), wshape := s\<rparr>]\<rparr>) this = Inr new"
  using assms by (simp add: storage_array_def object_from_ptr_def get_array_def)

lemma shape_after_replace:
  assumes "this < length (objects st)"
  shows "eqs_array_shape (st\<lparr>arrays := arrays st @ [new],
            objects := (objects st)[this := (objects st ! this)
               \<lparr>array := Some (length (arrays st)), wshape := s\<rparr>]\<rparr>) this
         = (Inr s, st\<lparr>arrays := arrays st @ [new],
            objects := (objects st)[this := (objects st ! this)
               \<lparr>array := Some (length (arrays st)), wshape := s\<rparr>]\<rparr>)"
  using assms by (simp add: eqs_array_shape_def object_from_ptr_def)

lemma scenario_narrow: "storage_array scenario_state 2 = Inr narrow_src"
  by (simp add: storage_array_def object_from_ptr_def get_array_def scenario_state_def)

subsection \<open>Swapping axes through a wrapper\<close>

text \<open>
  Claim C7. For every wrapped array and every pair of valid axes, calling \<open>swap_axes\<close>
  twice with the same axes succeeds both times and restores the array: the wrapper
  refers to an array with the original shape and the original elements, the shape it
  reports is the original shape, and its other fields are as before.
\<close>

theorem swap_axes_involution:
  assumes arr: "storage_array st this = Inr arr"
    and len: "length (data arr) = prod_list (shape arr)"
    and i: "axis_1 < length (shape arr)" and j: "axis_2 < length (shape arr)"
  shows "(let st1 = snd (eqs_array_swap_axes st this axis_1 axis_2);
              st2 = snd (eqs_array_swap_axes st1 this axis_1 axis_2)
          in fst (eqs_array_swap_axes st this axis_1 axis_2) = Inr ()
           \<and> fst (eqs_array_swap_axes st1 this axis_1 axis_2) = Inr ()
           \<and> storage_array st2 this = Inr arr
           \<and> eqs_array_shape st2 this = (Inr (shape arr), st2)
           \<and> children (objects st2 ! this) = children (objects st ! this)
           \<and> array_origin (objects st2 ! this) = array_origin (objects st ! this))"
proof -
  obtain b where b: "ndarray_swapaxes arr axis_1 axis_2 = Inr b"
    using i j by (simp add: ndarray_swapaxes_def Let_def)
  have bk: "ndarray_swapaxes b axis_1 axis_2 = Inr arr"
    by (rule swapaxes_twice [OF len i j b])
  have tv: "this < length (objects st)"
    using storage_array_Inr [OF arr] by simp
  let ?st1 = "st\<lparr>arrays := arrays st @ [b],
                objects := (objects st)[this := (objects st ! this)
                   \<lparr>array := Some (length (arrays st)), wshape := shape b\<rparr>]\<rparr>"
  have r1: "eqs_array_swap_axes st this axis_1 axis_2 = (Inr (), ?st1)"
    by (rule swap_axes_result [OF arr b])
  have tv1: "this < length (objects ?st1)" using tv by simp
  have arr1: "storage_array ?st1 this = Inr b"
    by (rule storage_array_after_replace [OF tv])
  let ?st2 = "?st1\<lparr>arrays := arrays ?st1 @ [arr],
                objects := (objects ?st1)[this := (objects ?st1 ! this)
                   \<lparr>array := Some (length (arrays ?st1)), wshape := shape arr\<rparr>]\<rparr>"
  have r2: "eqs_array_swap_axes ?st1 this axis_1 axis_2 = (Inr (), ?st2)"
    by (rule swap_axes_result [OF arr1 bk])
  have a2: "storage_array ?st2 this = Inr arr"
    by (rule storage_array_after_replace [OF tv1])
  have s2: "eqs_array_shape ?st2 this = (Inr (shape arr), ?st2)"
    by (rule shape_after_replace [OF tv1])
  have c2: "children (objects ?st2 ! this) = children (objects st ! this)"
    using tv by simp
  have o2: "array_origin (objects ?st2 ! this) = array_origin (objects st ! this)"
    using tv by simp
  show ?thesis
    unfolding Let_def r1 r2 snd_conv fst_conv using a2 s2 c2 o2 by blast
qed

theorem swap_axes_involution_witness:
  "storage_array scenario_state 2 = Inr narrow_src
   \<and> length (data narrow_src) = prod_list (shape narrow_src)
   \<and> 0 < length (shape narrow_src) \<and> 2 < length (shape narrow_src)
   \<and> fst (eqs_array_swap_axes scenario_state 2 0 2) = Inr ()
   \<and> storage_array
        (snd (eqs_array_swap_axes (snd (eqs_array_swap_axes scenario_state 2 0 2)) 2 0 2)) 2
       = Inr narrow_src"
proof -
  have h2: "length (data narrow_src) = prod_list (shape narrow_src)"
    by (simp add: narrow_src_def)
  have h3: "0 < length (shape narrow_src)" by (simp add: narrow_src_def)
  have h4: "2 < length (shape narrow_src)" by (simp add: narrow_src_def)
  from swap_axes_involution [OF scenario_narrow h2 h3 h4] scenario_narrow h2 h3 h4
  show ?thesis by (simp add: Let_def)
qed

subsection \<open>Reshaping through a wrapper\<close>

text \<open>
  Claim C4, as the code has it. For every wrapped array and every requested shape that
  the host library does not refuse for its number of axes or the magnitude of its
  sizes: when the product of the requested sizes is the number of elements, \<open>reshape\<close>
  succeeds, also when fewer than two sizes are requested, the wrapper then reports the
  requested shape and the elements are the same in row-major order; when the products
  differ, \<open>reshape\<close> fails with the shape error of the host library, which is what
  the specification calls \<open>InvalidShape\<close>, and the state, the array and the reported
  shape included, is as before the call. Whenever the products differ the call fails
  and leaves the state as it was; so it does for a shape the host library refuses.
\<close>

theorem reshape_by_element_count:
  assumes arr: "storage_array st this = Inr arr"
  shows "(let r = eqs_array_reshape h st this s; st' = snd r
          in (shape_limit h (kind arr) s = None \<and> prod_list s = prod_list (shape arr) \<longrightarrow>
                fst r = Inr ()
                \<and> eqs_array_shape st' this = (Inr s, st')
                \<and> storage_array st' this = Inr (arr\<lparr>shape := s\<rparr>)
                \<and> (\<forall>n<prod_list s.
                      elem (arr\<lparr>shape := s\<rparr>) (unravel s n) = elem arr (unravel (shape arr) n)))
           \<and> (shape_limit h (kind arr) s = None \<and> prod_list s \<noteq> prod_list (shape arr) \<longrightarrow>
                r = (Inl (shape_error (kind arr)), st))
           \<and> (prod_list s \<noteq> prod_list (shape arr) \<longrightarrow> (\<exists>e. r = (Inl e, st)))
           \<and> (\<forall>e. shape_limit h (kind arr) s = Some e \<longrightarrow> r = (Inl e, st)))"
proof -
  have tv: "this < length (objects st)"
    using storage_array_Inr [OF arr] by simp
  let ?st' = "st\<lparr>arrays := arrays st @ [arr\<lparr>shape := s\<rparr>],
                objects := (objects st)[this := (objects st ! this)
                   \<lparr>array := Some (length (arrays st)), wshape := s\<rparr>]\<rparr>"
  have ok: "fst (eqs_array_reshape h st this s) = Inr ()
      \<and> eqs_array_shape (snd (eqs_array_reshape h st this s)) this
          = (Inr s, snd (eqs_array_reshape h st this s))
      \<and> storage_array (snd (eqs_array_reshape h st this s)) this = Inr (arr\<lparr>shape := s\<rparr>)
      \<and> (\<forall>n<prod_list s.
            elem (arr\<lparr>shape := s\<rparr>) (unravel s n) = elem arr (unravel (shape arr) n))"
    if lim: "shape_limit h (kind arr) s = None" and eq: "prod_list s = prod_list (shape arr)"
  proof -
    have r: "eqs_array_reshape h st this s = (Inr (), ?st')"
      by (rule reshape_result [OF arr eq lim])
    have a: "storage_array ?st' this = Inr (arr\<lparr>shape := s\<rparr>)"
      by (rule storage_array_after_replace [OF tv])
    have sh: "eqs_array_shape ?st' this = (Inr s, ?st')"
      by (rule shape_after_replace [OF tv])
    have el: "\<forall>n<prod_list s.
        elem (arr\<lparr>shape := s\<rparr>) (unravel s n) = elem arr (unravel (shape arr) n)"
      using eq by (simp add: elem_def ravel_unravel)
    show ?thesis
      unfolding r snd_conv fst_conv using a sh el by simp
  qed
  have mismatch: "eqs_array_reshape h st this s = (Inl (shape_error (kind arr)), st)"
    if "shape_limit h (kind arr) s = None" "prod_list s \<noteq> prod_list (shape arr)"
    using reshape_failure [OF arr that(2) that(1)] .
  have refused: "eqs_array_reshape h st this s = (Inl e, st)"
    if "shape_limit h (kind arr) s = Some e" for e
    using reshape_refused [OF arr that] .
  have fails: "\<exists>e. eqs_array_reshape h st this s = (Inl e, st)"
    if ne: "prod_list s \<noteq> prod_list (shape arr)"
  proof (cases "shape_limit h (kind arr) s")
    case None
    then show ?thesis using mismatch [OF None ne] by blast
  next
    case (Some e)
    then show ?thesis using refused [OF Some] by blast
  qed
  show ?thesis
    unfolding Let_def using ok mismatch refused fails by blast
qed

theorem reshape_by_element_count_witness:
  "storage_array scenario_state 2 = Inr narrow_src
   \<and> shape_limit example_host (kind narrow_src) [9, 2] = None
   \<and> prod_list [9, 2] = prod_list (shape narrow_src)
   \<and> fst (eqs_array_reshape example_host scenario_state 2 [9, 2]) = Inr ()
   \<and> eqs_array_shape (snd (eqs_array_reshape example_host scenario_state 2 [9, 2])) 2
       = (Inr [9, 2], snd (eqs_array_reshape example_host scenario_state 2 [9, 2]))
   \<and> shape_limit example_host (kind narrow_src) [4, 5] = None
   \<and> prod_list [4, 5] \<noteq> prod_list (shape narrow_src)
   \<and> eqs_array_reshape example_host scenario_state 2 [4, 5] = (Inl ValueError, scenario_state)
   \<and> shape_limit example_host (kind narrow_src) (18 # replicate 64 1) = Some ValueError
   \<and> eqs_array_reshape example_host scenario_state 2 (18 # replicate 64 1)
       = (Inl ValueError, scenario_state)"
proof -
  have p: "prod_list [9, 2] = prod_list (shape narrow_src)" by (simp add: narrow_src_def)
  have q: "prod_list [4, 5] \<noteq> prod_list (shape narrow_src)" by (simp add: narrow_src_def)
  have k: "shape_error (kind narrow_src) = ValueError"
    by (simp add: narrow_src_def shape_error_def)
  have l1: "shape_limit example_host (kind narrow_src) [9, 2] = None"
    by (simp add: example_host_def)
  have l2: "shape_limit example_host (kind narrow_src) [4, 5] = None"
    by (simp add: example_host_def)
  have l3: "shape_limit example_host (kind narrow_src) (18 # replicate 64 1) = Some ValueError"
    by (simp add: example_host_def k)
  note a = reshape_by_element_count [OF scenario_narrow, of example_host "[9, 2]"]
  note b = reshape_by_element_count [OF scenario_narrow, of example_host "[4, 5]"]
  note c = reshape_by_element_count [OF scenario_narrow, of example_host "18 # replicate 64 1"]
  from a p l1 have a': "fst (eqs_array_reshape example_host scenario_state 2 [9, 2]) = Inr ()
     \<and> eqs_array_shape (snd (eqs_array_reshape example_host scenario_state 2 [9, 2])) 2
         = (Inr [9, 2], snd (eqs_array_reshape example_host scenario_state 2 [9, 2]))"
    unfolding Let_def by blast
  from b q l2 k have b':
    "eqs_array_reshape example_host scenario_state 2 [4, 5] = (Inl ValueError, scenario_state)"
    unfolding Let_def by simp
  from c l3 have c':
    "eqs_array_reshape example_host scenario_state 2 (18 # replicate 64 1)
       = (Inl ValueError, scenario_state)"
    unfolding Let_def by blast
  from a' b' c' scenario_narrow p q l1 l2 l3 show ?thesis by blast
qed

text \<open>The claim as written asks for a failure when fewer than two sizes are requested,
  and for a success whenever the products agree. The callback does not look at the
  number of sizes: a (3, 2, 3) array is reshaped to the single axis (18). And it hands
  the sizes to the host library, which refuses 65 axes although their product is 18.\<close>

theorem reshape_to_one_axis_counterexample:
  "length [18::nat] < 2
   \<and> fst (eqs_array_reshape example_host scenario_state 2 [18]) = Inr ()
   \<and> eqs_array_shape (snd (eqs_array_reshape example_host scenario_state 2 [18])) 2
       = (Inr [18], snd (eqs_array_reshape example_host scenario_state 2 [18]))
   \<and> prod_list (18 # replicate 64 1) = prod_list (shape narrow_src)
   \<and> eqs_array_reshape example_host scenario_state 2 (18 # replicate 64 1)
       = (Inl ValueError, scenario_state)"
proof -
  have p: "prod_list [18] = prod_list (shape narrow_src)" by (simp add: narrow_src_def)
  have l: "shape_limit example_host (kind narrow_src) [18] = None"
    by (simp add: example_host_def)
  have t: "2 < length (objects scenario_state)" by (simp add: scenario_state_def)
  have one: "fst (eqs_array_reshape example_host scenario_state 2 [18]) = Inr ()
     \<and> eqs_array_shape (snd (eqs_array_reshape example_host scenario_state 2 [18])) 2
       = (Inr [18], snd (eqs_array_reshape example_host scenario_state 2 [18]))"
    unfolding reshape_result [OF scenario_narrow p l] snd_conv fst_conv
    using shape_after_replace [OF t] by simp
  have l': "shape_limit example_host (kind narrow_src) (18 # replicate 64 1) = Some ValueError"
    by (simp add: example_host_def narrow_src_def shape_error_def)
  have many: "eqs_array_reshape example_host scenario_state 2 (18 # replicate 64 1)
       = (Inl ValueError, scenario_state)"
    by (rule reshape_refused [OF scenario_narrow l'])
  have p': "prod_list (18 # replicate 64 1) = prod_list (shape narrow_src)"
    by (simp add: narrow_src_def)
  show ?thesis using one many p' by simp
qed

subsection \<open>Indexing with a list of rows\<close>

lemma last_occurrence_None: "(last_occurrence xs r = None) = (r \<notin> set xs)"
  by (induction xs) (auto split: option.splits)

lemma last_occurrence_Some:
  "last_occurrence xs r = Some q \<Longrightarrow>
     q < length xs \<and> xs ! q = r \<and> (\<forall>q'. q < q' \<and> q' < length xs \<longrightarrow> xs ! q' \<noteq> r)"
proof (induction xs arbitrary: q)
  case Nil
  then show ?case by simp
next
  case (Cons x xs)
  show ?case
  proof (cases "last_occurrence xs r")
    case None
    then have nin: "r \<notin> set xs" by (simp add: last_occurrence_None)
    from Cons.prems None have q: "q = 0" "x = r" by (auto split: if_splits)
    have "\<forall>q'. 0 < q' \<and> q' < length (x # xs) \<longrightarrow> (x # xs) ! q' \<noteq> r"
    proof (intro allI impI)
      fix q' assume a: "0 < q' \<and> q' < length (x # xs)"
      then obtain k where k: "q' = Suc k" by (cases q') auto
      with a have "xs ! k \<in> set xs" by simp
      with nin k show "(x # xs) ! q' \<noteq> r" by auto
    qed
    with q show ?thesis by simp
  next
    case (Some p)
    with Cons.prems have q: "q = Suc p" by simp
    note ih = Cons.IH [OF Some]
    have "\<forall>q'. Suc p < q' \<and> q' < length (x # xs) \<longrightarrow> (x # xs) ! q' \<noteq> r"
    proof (intro allI impI)
      fix q' assume a: "Suc p < q' \<and> q' < length (x # xs)"
      then obtain k where k: "q' = Suc k" by (cases q') auto
      with a ih show "(x # xs) ! q' \<noteq> r" by auto
    qed
    with q ih show ?thesis by simp
  qed
qed

lemma last_occurrence_eq:
  assumes "q < length xs" "xs ! q = r" "\<forall>q'. q < q' \<and> q' < length xs \<longrightarrow> xs ! q' \<noteq> r"
  shows "last_occurrence xs r = Some q"
proof (cases "last_occurrence xs r")
  case None
  then have "r \<notin> set xs" by (simp add: last_occurrence_None)
  with assms(1,2) show ?thesis by auto
next
  case (Some p)
  note f = last_occurrence_Some [OF Some]
  have "\<not> p < q" using f assms(1,2) by auto
  moreover have "\<not> q < p" using f assms(3) by auto
  ultimately show ?thesis using Some by simp
qed

lemma deciding_None: "(deciding h rows idx = None) = (hd idx \<notin> set rows)"
proof (cases "order h rows idx")
  case None
  then show ?thesis by (simp add: deciding_def last_occurrence_None)
next
  case (Some p)
  show ?thesis
  proof (cases "p < length rows \<and> rows ! p = hd idx")
    case True
    then have "hd idx \<in> set rows" using nth_mem [of p rows] by auto
    with True Some show ?thesis by (simp add: deciding_def)
  next
    case False
    then have "deciding h rows idx = last_occurrence rows (hd idx)"
      using Some by (auto simp: deciding_def)
    then show ?thesis by (simp add: last_occurrence_None)
  qed
qed

lemma deciding_Some:
  "deciding h rows idx = Some q \<Longrightarrow> q < length rows \<and> rows ! q = hd idx"
  using last_occurrence_Some [of rows "hd idx" q]
  by (auto simp: deciding_def split: option.splits if_splits)

lemma deciding_only:
  assumes "q < length rows" "rows ! q = hd idx"
    and "\<forall>q'. q' < length rows \<and> q' \<noteq> q \<longrightarrow> rows ! q' \<noteq> hd idx"
  shows "deciding h rows idx = Some q"
proof (cases "deciding h rows idx")
  case None
  then have "hd idx \<notin> set rows" by (simp add: deciding_None)
  moreover have "hd idx \<in> set rows" using assms(1,2) nth_mem [of q rows] by auto
  ultimately show ?thesis by simp
next
  case (Some p)
  from deciding_Some [OF Some] assms(3) have "p = q" by auto
  with Some show ?thesis by simp
qed

lemma valid_index_append:
  "valid_index xs mid \<Longrightarrow> c < l \<Longrightarrow> valid_index (xs @ [l]) (mid @ [c])"
  by (simp add: valid_index_def list_all2_appendI)


lemma squeeze_valid:
  "valid_index ts tidx \<Longrightarrow> map2 (\<lambda>d j. if d = 1 then 0 else j) ts tidx = tidx"
proof (induction ts arbitrary: tidx)
  case Nil
  then show ?case by (simp add: valid_index_Nil)
next
  case (Cons d ds)
  then obtain j js where "tidx = j # js" "j < d" "valid_index ds js"
    by (auto simp: valid_index_Cons)
  with Cons.IH show ?case by auto
qed

lemma broadcast_elem_exact:
  assumes "shape v = ts" "valid_index ts tidx"
  shows "broadcast_elem v ts tidx = elem v tidx"
  by (simp only: broadcast_elem_def elem_def Let_def assms(1) diff_self_eq_0 drop_0
        squeeze_valid [OF assms(2)])

lemma broadcastable_refl: "broadcastable ts ts"
  by (simp add: broadcastable_def list_all2_same)

lemma getitem_rows_result:
  assumes "2 \<le> length (shape a)" "\<forall>r\<in>set rows. r < hd (shape a)"
    and "shape_limit h (kind a) (length rows # tl (shape a)) = None"
  shows "getitem_rows h a rows =
     Inr (a\<lparr>shape := length rows # tl (shape a),
            data := map (\<lambda>n. let idx = unravel (length rows # tl (shape a)) n
                             in elem a (rows ! hd idx # tl idx))
                        [0..<prod_list (length rows # tl (shape a))]\<rparr>)"
proof -
  have "\<not> list_ex (\<lambda>r. hd (shape a) \<le> r) rows"
    using assms(2) by (auto simp: list_ex_iff)
  with assms(1,3) show ?thesis by (simp add: getitem_rows_def Let_def)
qed

lemma getitem_rows_elem:
  assumes v: "getitem_rows h a rows = Inr v"
    and q: "q < length rows" and rest: "valid_index (tl (shape a)) rest"
  shows "elem v (q # rest) = elem a (rows ! q # rest)"
proof -
  let ?s = "length rows # tl (shape a)"
  have vdef: "v = a\<lparr>shape := ?s,
      data := map (\<lambda>n. let idx = unravel ?s n in elem a (rows ! hd idx # tl idx))
                  [0..<prod_list ?s]\<rparr>"
    using v by (auto simp: getitem_rows_def Let_def split: if_splits option.splits)
  have val: "valid_index ?s (q # rest)" using q rest by (simp add: valid_index_Cons)
  have m: "ravel ?s (q # rest) < prod_list ?s" by (rule ravel_less [OF val])
  have u: "unravel ?s (ravel ?s (q # rest)) = q # rest" by (rule unravel_ravel [OF val])
  have "elem v (q # rest) = data v ! ravel ?s (q # rest)"
    by (simp add: elem_def vdef)
  also have "\<dots> = (let idx = unravel ?s (ravel ?s (q # rest))
                     in elem a (rows ! hd idx # tl idx))"
    using m unfolding vdef by (simp del: ravel.simps unravel.simps prod_list.Cons)
  also have "\<dots> = elem a (rows ! q # rest)"
    unfolding u by simp
  finally show ?thesis .
qed

lemma getitem_rows_attrs:
  "getitem_rows h a rows = Inr v \<Longrightarrow>
     shape v = length rows # tl (shape a) \<and> kind v = kind a \<and> dtype v = dtype a
     \<and> device v = device a"
  by (auto simp: getitem_rows_def Let_def split: if_splits option.splits)

subsection \<open>Assigning to the rows of a list\<close>

lemma setitem_rows_Inr:
  assumes "setitem_rows h out rows start stop v = Inr out'"
  shows "2 \<le> length (shape out) \<and> (\<forall>r\<in>set rows. r < hd (shape out))
       \<and> value_check out v = None \<and> assign_limit h out v = None
       \<and> broadcastable (shape v)
            (length rows # butlast (tl (shape out))
               @ [min stop (last (shape out)) - min start (last (shape out))])
       \<and> out' = out\<lparr>data := map (assigned h out rows start stop v) [0..<length (data out)]\<rparr>"
  using assms
  by (auto simp: setitem_rows_def slice_indices_def Let_def assigned_def list_ex_iff
           split: if_splits option.splits)

lemma setitem_rows_result:
  assumes "2 \<le> length (shape out)" "\<forall>r\<in>set rows. r < hd (shape out)"
    and "value_check out v = None" and "assign_limit h out v = None"
    and "broadcastable (shape v)
            (length rows # butlast (tl (shape out))
               @ [min stop (last (shape out)) - min start (last (shape out))])"
  shows "setitem_rows h out rows start stop v =
     Inr (out\<lparr>data := map (assigned h out rows start stop v) [0..<length (data out)]\<rparr>)"
proof -
  have "\<not> list_ex (\<lambda>r. hd (shape out) \<le> r) rows"
    using assms(2) by (auto simp: list_ex_iff)
  with assms(1,3,4,5) show ?thesis
    by (simp add: setitem_rows_def slice_indices_def Let_def assigned_def)
qed

lemma setitem_rows_attrs:
  assumes "setitem_rows h out rows start stop v = Inr out'"
  shows "shape out' = shape out \<and> kind out' = kind out \<and> dtype out' = dtype out
       \<and> device out' = device out \<and> length (data out') = length (data out)"
  using setitem_rows_Inr [OF assms] by simp

lemma valid_index_hd_last:
  assumes "valid_index sh idx" "2 \<le> length sh"
  shows "idx = hd idx # butlast (tl idx) @ [last idx]"
proof -
  have l: "length idx = length sh" by (rule valid_index_length [OF assms(1)])
  with assms(2) obtain j js where idx: "idx = j # js" and js: "js \<noteq> []"
    by (cases idx; cases "tl idx") auto
  then show ?thesis by simp
qed

lemma assigned_at:
  assumes len: "length (data out) = prod_list (shape out)"
    and val: "valid_index (shape out) idx"
  shows "assigned h out rows start stop v (ravel (shape out) idx) =
     (let s0 = min start (last (shape out)); s1 = min stop (last (shape out));
          ts = length rows # butlast (tl (shape out)) @ [s1 - s0]
      in (case deciding h rows idx of
            None \<Rightarrow> elem out idx
          | Some q \<Rightarrow>
              if s0 \<le> last idx \<and> last idx < s1
              then convert h (dtype v) (dtype out)
                     (broadcast_elem v ts (q # butlast (tl idx) @ [last idx - s0]))
              else elem out idx))"
  unfolding assigned_def slice_indices_def Let_def prod.case unravel_ravel [OF val] elem_def
  by (rule refl)

lemma setitem_rows_elem:
  assumes r: "setitem_rows h out rows start stop v = Inr out'"
    and len: "length (data out) = prod_list (shape out)"
    and val: "valid_index (shape out) idx"
  shows "elem out' idx = assigned h out rows start stop v (ravel (shape out) idx)"
proof -
  note f = setitem_rows_Inr [OF r]
  have m: "ravel (shape out) idx < length (data out)"
    using ravel_less [OF val] len by simp
  have "elem out' idx = data out' ! ravel (shape out) idx"
    using setitem_rows_attrs [OF r] by (simp add: elem_def)
  also have "\<dots> = assigned h out rows start stop v (ravel (shape out) idx)"
    using f m by simp
  finally show ?thesis .
qed


lemma setitem_rows_written:
  assumes r: "setitem_rows h out rows start stop v = Inr out'"
    and len: "length (data out) = prod_list (shape out)"
    and so: "shape out = n # mids @ [l]"
    and sv: "shape v = length rows # mids @ [stop - start]"
    and st: "start \<le> stop" "stop \<le> l"
    and q: "q < length rows"
        "\<forall>q'. q' < length rows \<and> q' \<noteq> q \<longrightarrow> rows ! q' \<noteq> rows ! q"
    and mid: "valid_index mids mid" and c: "c < stop - start"
  shows "elem out' (rows ! q # mid @ [start + c])
           = convert h (dtype v) (dtype out) (elem v (q # mid @ [c]))"
proof -
  note f = setitem_rows_Inr [OF r]
  let ?idx = "rows ! q # mid @ [start + c]"
  have rq: "rows ! q < n" using f q(1) so by auto
  have cs: "start + c < stop" using c by arith
  have cl: "start + c < l" using cs st by simp
  have val: "valid_index (shape out) ?idx"
    using rq cl mid by (simp add: so valid_index_Cons valid_index_append)
  have lo: "deciding h rows ?idx = Some q"
    using q by (intro deciding_only) auto
  have ml: "length mid = length mids" by (rule valid_index_length [OF mid])
  have s0: "min start l = start" "min stop l = stop" using st by simp_all
  have ts: "length rows # butlast (tl (shape out)) @ [stop - start] = shape v"
    by (simp add: so sv butlast_append)
  have tv: "valid_index (shape v) (q # mid @ [c])"
    using q(1) mid c by (simp add: sv valid_index_Cons valid_index_append)
  have "elem out' ?idx = assigned h out rows start stop v (ravel (shape out) ?idx)"
    by (rule setitem_rows_elem [OF r len val])
  also have "\<dots> = convert h (dtype v) (dtype out) (broadcast_elem v (shape v) (q # mid @ [c]))"
    unfolding assigned_at [OF len val]
    using lo cs by (simp add: Let_def so sv s0 butlast_append)
  also have "\<dots> = convert h (dtype v) (dtype out) (elem v (q # mid @ [c]))"
    by (simp only: broadcast_elem_exact [OF refl tv])
  finally show ?thesis .
qed

subsection \<open>Moving samples: what the callback does to the state\<close>

lemma move_result:
  assumes "input < length (objects st)" "this < length (objects st)"
    and "array (objects st ! input) = Some ia" "ia < length (arrays st)"
    and "getitem_rows h (arrays st ! ia) (map fst samples) = Inr v"
    and "array (objects st ! this) = Some oa" "oa < length (arrays st)"
    and "setitem_rows h (arrays st ! oa) (map snd samples) p0 p1 v = Inr out'"
  shows "eqs_array_move_samples_from h st this input samples p0 p1 =
           (Inr (), st\<lparr>arrays := (arrays st)[oa := out']\<rparr>)"
  using assms
  by (simp add: eqs_array_move_samples_from_def object_from_ptr_def get_array_def Let_def)

lemma move_inversion:
  assumes "eqs_array_move_samples_from h st this input samples p0 p1 = (Inr (), st')"
  shows "\<exists>ia oa v out'.
      input < length (objects st) \<and> this < length (objects st)
    \<and> array (objects st ! input) = Some ia \<and> ia < length (arrays st)
    \<and> getitem_rows h (arrays st ! ia) (map fst samples) = Inr v
    \<and> array (objects st ! this) = Some oa \<and> oa < length (arrays st)
    \<and> setitem_rows h (arrays st ! oa) (map snd samples) p0 p1 v = Inr out'
    \<and> st' = st\<lparr>arrays := (arrays st)[oa := out']\<rparr>"
  using assms
  by (auto simp: eqs_array_move_samples_from_def object_from_ptr_def get_array_def Let_def
           split: option.splits sum.splits if_splits)

lemma move_failure:
  "fst (eqs_array_move_samples_from h st this input samples p0 p1) = Inl e
     \<Longrightarrow> snd (eqs_array_move_samples_from h st this input samples p0 p1) = st"
  by (auto simp: eqs_array_move_samples_from_def Let_def
           split: option.splits sum.splits)

lemma value_check_attrs:
  "kind v = kind v' \<Longrightarrow> dtype v = dtype v' \<Longrightarrow> device v = device v'
     \<Longrightarrow> value_check out v = value_check out v'"
  by (cases "kind out"; cases "kind v"; cases "kind v'") (simp_all add: value_check_def)

lemma value_check_same:
  "kind v = kind out \<Longrightarrow> dtype v = dtype out \<Longrightarrow> device v = device out
     \<Longrightarrow> (kind out = Numpy \<longrightarrow> device out = Cpu) \<Longrightarrow> value_check out v = None"
  by (cases "kind out") (simp_all add: value_check_def)

lemma move_writes:
  assumes src: "storage_array st input = Inr src" and dst: "storage_array st this = Inr dst"
    and vc: "value_check dst src = None"
    and al: "\<forall>v. assign_limit h dst v = None"
    and sl: "shape_limit h (kind src) (length samples # mids @ [p1 - p0]) = None"
    and ls: "length (data src) = prod_list (shape src)"
    and ld: "length (data dst) = prod_list (shape dst)"
    and ss: "shape src = ns # mids @ [p1 - p0]" and sd: "shape dst = nd # mids @ [l]"
    and range: "p0 \<le> p1" "p1 \<le> l"
    and rows: "\<forall>(sr, dr)\<in>set samples. sr < ns \<and> dr < nd"
  shows "\<exists>st' dst'.
      eqs_array_move_samples_from h st this input samples p0 p1 = (Inr (), st')
    \<and> storage_array st' this = Inr dst'
    \<and> (\<forall>q<length samples.
          (\<forall>q'. q' < length samples \<and> q' \<noteq> q \<longrightarrow> snd (samples ! q') \<noteq> snd (samples ! q))
          \<longrightarrow> (\<forall>mid c. valid_index mids mid \<and> c < p1 - p0 \<longrightarrow>
                 elem dst' (snd (samples ! q) # mid @ [p0 + c])
                   = convert h (dtype src) (dtype dst)
                       (elem src (fst (samples ! q) # mid @ [c]))))"
proof -
  from storage_array_Inr [OF src] obtain ia where
    inp: "input < length (objects st)" and ia: "array (objects st ! input) = Some ia"
      "ia < length (arrays st)" "arrays st ! ia = src" by auto
  from storage_array_Inr [OF dst] obtain oa where
    thi: "this < length (objects st)" and oa: "array (objects st ! this) = Some oa"
      "oa < length (arrays st)" "arrays st ! oa = dst" by auto
  let ?ins = "map fst samples" and ?outs = "map snd samples"
  have rin: "\<forall>r\<in>set ?ins. r < hd (shape src)" using rows by (auto simp: ss)
  have rout: "\<forall>r\<in>set ?outs. r < hd (shape dst)" using rows by (auto simp: sd)
  obtain v where g: "getitem_rows h src ?ins = Inr v"
    using getitem_rows_result [of src ?ins h] rin sl by (simp add: ss)
  note va = getitem_rows_attrs [OF g]
  have sv: "shape v = length ?outs # mids @ [p1 - p0]" using va by (simp add: ss)
  have vcv: "value_check dst v = None"
    using vc value_check_attrs [of v src dst] va by simp
  have bc: "broadcastable (shape v)
      (length ?outs # butlast (tl (shape dst))
         @ [min p1 (last (shape dst)) - min p0 (last (shape dst))])"
    using range by (simp add: sv sd butlast_append broadcastable_refl)
  obtain dst' where s: "setitem_rows h dst ?outs p0 p1 v = Inr dst'"
    using setitem_rows_result [of dst ?outs v h p1 p0] rout vcv bc al by (simp add: sd)
  let ?st' = "st\<lparr>arrays := (arrays st)[oa := dst']\<rparr>"
  have g': "getitem_rows h (arrays st ! ia) ?ins = Inr v" using g ia by simp
  have s': "setitem_rows h (arrays st ! oa) ?outs p0 p1 v = Inr dst'" using s oa by simp
  have m: "eqs_array_move_samples_from h st this input samples p0 p1 = (Inr (), ?st')"
    by (rule move_result [OF inp thi ia(1) ia(2) g' oa(1) oa(2) s'])
  have sa: "storage_array ?st' this = Inr dst'"
    using thi oa by (simp add: storage_array_def object_from_ptr_def get_array_def)
  have el: "\<forall>q<length samples.
          (\<forall>q'. q' < length samples \<and> q' \<noteq> q \<longrightarrow> snd (samples ! q') \<noteq> snd (samples ! q))
          \<longrightarrow> (\<forall>mid c. valid_index mids mid \<and> c < p1 - p0 \<longrightarrow>
                 elem dst' (snd (samples ! q) # mid @ [p0 + c])
                   = convert h (dtype src) (dtype dst)
                       (elem src (fst (samples ! q) # mid @ [c])))"
  proof (intro allI impI)
    fix q mid c
    assume q: "q < length samples"
      and lastq: "\<forall>q'. q' < length samples \<and> q' \<noteq> q
                    \<longrightarrow> snd (samples ! q') \<noteq> snd (samples ! q)"
      and mc: "valid_index mids mid \<and> c < p1 - p0"
    have q1: "q < length ?outs" using q by simp
    have q2: "\<forall>q'. q' < length ?outs \<and> q' \<noteq> q \<longrightarrow> ?outs ! q' \<noteq> ?outs ! q"
      using lastq q by simp
    have w: "elem dst' (?outs ! q # mid @ [p0 + c])
               = convert h (dtype v) (dtype dst) (elem v (q # mid @ [c]))"
      using mc by (intro setitem_rows_written [OF s ld sd sv range q1 q2]) simp_all
    have rest: "valid_index (tl (shape src)) (mid @ [c])"
      using mc by (simp add: ss valid_index_append)
    have q3: "q < length ?ins" using q by simp
    have r: "elem v (q # mid @ [c]) = elem src (?ins ! q # mid @ [c])"
      by (rule getitem_rows_elem [OF g q3 rest])
    show "elem dst' (snd (samples ! q) # mid @ [p0 + c])
            = convert h (dtype src) (dtype dst) (elem src (fst (samples ! q) # mid @ [c]))"
      using w r q va by simp
  qed
  show ?thesis using m sa el by blast
qed

subsection \<open>Moving samples: the scenario of the specification\<close>

lemma scenario_wide_fails:
  "eqs_array_move_samples_from example_host scenario_state 0 1 [(0, 1), (2, 3)] 1 4
     = (Inl ValueError, scenario_state)"
  by code_simp

lemma scenario_narrow_moves:
  "eqs_array_move_samples_from example_host scenario_state 0 2 [(0, 1), (2, 3)] 1 4
     = (Inr (), scenario_state\<lparr>arrays := (arrays scenario_state)[0 := scenario_result]\<rparr>)"
  by code_simp



lemma scenario_duplicate_moves:
  "eqs_array_move_samples_from example_host scenario_state 0 2 [(0, 1), (2, 1)] 1 4
     = (Inr (), scenario_state\<lparr>arrays := (arrays scenario_state)[0 := duplicate_result]\<rparr>)"
  by code_simp

lemma tensor_types_differ:
  "eqs_array_move_samples_from example_host tensor_state 0 1 [(0, 1), (2, 3)] 1 4
     = (Inl RuntimeError, tensor_state)"
  by code_simp

lemma value_check_None_same:
  "kind v = kind out \<Longrightarrow> dtype v = dtype out \<Longrightarrow> device v = device out
     \<Longrightarrow> value_check out v = None"
  by (cases "kind out") (simp_all add: value_check_def)

lemma scenario_dst_at: "storage_array scenario_state 0 = Inr scenario_dst"
  by (simp add: storage_array_def object_from_ptr_def get_array_def scenario_state_def)

lemma scenario_src_at: "storage_array scenario_state 1 = Inr scenario_src"
  by (simp add: storage_array_def object_from_ptr_def get_array_def scenario_state_def)


lemma example_host_assigns: "assign_limit example_host out v = None"
  by (simp add: example_host_def)

text \<open>
  Claim C1, as the code has it. The callback assigns \<open>input[input_samples, ..., :]\<close>,
  the whole last axis of the source, to the sub-range of the destination. For every
  wrapped source and destination of the same kind, element type and device, whose
  shapes agree on the middle axes and where the last axis of the source has
  \<open>property_end - property_start\<close> entries, every valid range and every list of pairs
  with indices in range that the host library does not refuse: the call succeeds, and
  for every pair \<open>(sr, dr)\<close> whose destination row no other pair names,
  \<open>dst[dr, ..., p0 + c] = src[sr, ..., c]\<close> for every \<open>c < p1 - p0\<close>. In particular, with a
  source of shape (3, 2, 3) filled with its row index, a destination of shape (4, 2, 5)
  filled with zero, the pairs (0, 1) and (2, 3) and the range from 1 to 4, the call
  succeeds; rows 1 and 3 of the destination then hold 0 and 2 in the columns 1 to 3, and
  every other element is zero.
\<close>

theorem move_samples_from_writes:
  assumes src: "storage_array st input = Inr src" and dst: "storage_array st this = Inr dst"
    and same: "kind src = kind dst" "dtype src = dtype dst" "device src = device dst"
    and al: "\<forall>v. assign_limit h dst v = None"
    and sl: "shape_limit h (kind src) (length samples # mids @ [p1 - p0]) = None"
    and ls: "length (data src) = prod_list (shape src)"
    and ld: "length (data dst) = prod_list (shape dst)"
    and ss: "shape src = ns # mids @ [p1 - p0]" and sd: "shape dst = nd # mids @ [l]"
    and range: "p0 \<le> p1" "p1 \<le> l"
    and rows: "\<forall>(sr, dr)\<in>set samples. sr < ns \<and> dr < nd"
  shows "(\<exists>st' dst'.
      eqs_array_move_samples_from h st this input samples p0 p1 = (Inr (), st')
    \<and> storage_array st' this = Inr dst'
    \<and> (\<forall>q<length samples.
          (\<forall>q'. q' < length samples \<and> q' \<noteq> q \<longrightarrow> snd (samples ! q') \<noteq> snd (samples ! q))
          \<longrightarrow> (\<forall>mid c. valid_index mids mid \<and> c < p1 - p0 \<longrightarrow>
                 elem dst' (snd (samples ! q) # mid @ [p0 + c])
                   = elem src (fst (samples ! q) # mid @ [c]))))
    \<and> eqs_array_move_samples_from example_host scenario_state 0 2 [(0, 1), (2, 3)] 1 4
        = (Inr (), scenario_state\<lparr>arrays := (arrays scenario_state)[0 := scenario_result]\<rparr>)"
proof -
  have vc: "value_check dst src = None"
    by (rule value_check_None_same [OF same])
  have cv: "convert h (dtype src) (dtype dst) x = x" for x
    using same(2) by (simp add: convert_def)
  show ?thesis
    using move_writes [OF src dst vc al sl ls ld ss sd range rows] scenario_narrow_moves
    unfolding cv by blast
qed

theorem move_samples_from_writes_witness:
  "storage_array scenario_state 2 = Inr narrow_src
   \<and> storage_array scenario_state 0 = Inr scenario_dst
   \<and> kind narrow_src = kind scenario_dst \<and> dtype narrow_src = dtype scenario_dst
   \<and> device narrow_src = device scenario_dst
   \<and> shape_limit example_host (kind narrow_src) (length [(0::nat, 1::nat), (2, 3)] # [2] @ [4 - 1])
       = None
   \<and> shape narrow_src = 3 # [2] @ [4 - 1] \<and> shape scenario_dst = 4 # [2] @ [5]
   \<and> fst (eqs_array_move_samples_from example_host scenario_state 0 2 [(0, 1), (2, 3)] 1 4)
       = Inr ()"
proof -
  have s1: "kind narrow_src = kind scenario_dst" "dtype narrow_src = dtype scenario_dst"
      "device narrow_src = device scenario_dst"
    by (simp_all add: narrow_src_def scenario_dst_def)
  have al: "\<forall>v. assign_limit example_host scenario_dst v = None"
    by (simp add: example_host_assigns)
  have sl: "shape_limit example_host (kind narrow_src)
      (length [(0::nat, 1::nat), (2, 3)] # [2] @ [4 - 1]) = None"
    by (simp add: example_host_def)
  have l1: "length (data narrow_src) = prod_list (shape narrow_src)"
    by (simp add: narrow_src_def)
  have l2: "length (data scenario_dst) = prod_list (shape scenario_dst)"
    by (simp add: scenario_dst_def)
  have ss: "shape narrow_src = 3 # [2] @ [4 - 1]" by (simp add: narrow_src_def)
  have sd: "shape scenario_dst = 4 # [2] @ [5]" by (simp add: scenario_dst_def)
  have r1: "(1::nat) \<le> 4" and r2: "(4::nat) \<le> 5" by simp_all
  have rows: "\<forall>(sr, dr)\<in>set [(0, 1), (2, 3)]. sr < (3::nat) \<and> dr < (4::nat)" by simp
  note t = move_samples_from_writes
    [OF scenario_narrow scenario_dst_at s1 al sl l1 l2 ss sd r1 r2 rows]
  from t have
    "fst (eqs_array_move_samples_from example_host scenario_state 0 2 [(0, 1), (2, 3)] 1 4)
       = Inr ()"
    by auto
  with scenario_narrow scenario_dst_at s1 sl ss sd show ?thesis by blast
qed

text \<open>The claim as written restricts the source to the sub-range as well, and its
  scenario has a source of shape (3, 2, 5): there the callback assigns five columns to
  three and fails, the destination untouched. The claim also speaks of every list of
  pairs and every two arrays of one origin: when two pairs name one destination row, one
  of them does not decide the row; and two tensors of different element types have one
  origin, and torch refuses the assignment.\<close>

theorem move_samples_from_scenario_counterexample:
  "storage_array scenario_state 1 = Inr scenario_src
   \<and> storage_array scenario_state 0 = Inr scenario_dst
   \<and> shape scenario_src = [3, 2, 5] \<and> shape scenario_dst = [4, 2, 5]
   \<and> array_origin (objects scenario_state ! 1) = array_origin (objects scenario_state ! 0)
   \<and> eqs_array_move_samples_from example_host scenario_state 0 1 [(0, 1), (2, 3)] 1 4
       = (Inl ValueError, scenario_state)
   \<and> eqs_array_move_samples_from example_host scenario_state 0 2 [(0, 1), (2, 1)] 1 4
       = (Inr (), scenario_state\<lparr>arrays := (arrays scenario_state)[0 := duplicate_result]\<rparr>)
   \<and> elem duplicate_result [1, 0, 1] = 2 \<and> elem narrow_src [0, 0, 0] = 0
   \<and> array_origin (objects tensor_state ! 1) = array_origin (objects tensor_state ! 0)
   \<and> eqs_array_move_samples_from example_host tensor_state 0 1 [(0, 1), (2, 3)] 1 4
       = (Inl RuntimeError, tensor_state)"
proof -
  have a: "shape scenario_src = [3, 2, 5] \<and> shape scenario_dst = [4, 2, 5]
     \<and> array_origin (objects scenario_state ! 1) = array_origin (objects scenario_state ! 0)"
    by (simp add: scenario_src_def scenario_dst_def scenario_state_def)
  have b: "elem duplicate_result [1, 0, 1] = 2 \<and> elem narrow_src [0, 0, 0] = 0"
    by (simp add: elem_def duplicate_result_def narrow_src_def nth_append)
  have c: "array_origin (objects tensor_state ! 1) = array_origin (objects tensor_state ! 0)"
    by (simp add: tensor_state_def)
  from scenario_src_at scenario_dst_at a scenario_wide_fails scenario_duplicate_moves b c
    tensor_types_differ
  show ?thesis by (intro conjI) simp_all
qed

subsection \<open>Moving samples: what is left as it was\<close>





subsection \<open>Moving samples between arrays of different origins\<close>






subsection \<open>The cached shape\<close>

lemma consistentI:
  assumes "\<And>p a. p < length (objects st) \<Longrightarrow> array (objects st ! p) = Some a
     \<Longrightarrow> a < length (arrays st) \<and> wshape (objects st ! p) = shape (arrays st ! a)"
  shows "shapes_consistent st"
  unfolding shapes_consistent_iff using assms by blast

lemma consistentD:
  assumes "shapes_consistent st" "p < length (objects st)" "array (objects st ! p) = Some a"
  shows "a < length (arrays st) \<and> wshape (objects st ! p) = shape (arrays st ! a)"
  using assms unfolding shapes_consistent_iff by blast

lemma consistent_replace:
  assumes c: "shapes_consistent st" and t: "this < length (objects st)"
  shows "shapes_consistent (st\<lparr>arrays := arrays st @ [new],
            objects := (objects st)[this := (objects st ! this)
               \<lparr>array := Some (length (arrays st)), wshape := shape new\<rparr>]\<rparr>)"
    (is "shapes_consistent ?st'")
proof (rule consistentI)
  fix p a
  assume p: "p < length (objects ?st')" and a: "array (objects ?st' ! p) = Some a"
  show "a < length (arrays ?st') \<and> wshape (objects ?st' ! p) = shape (arrays ?st' ! a)"
  proof (cases "p = this")
    case True
    then have "a = length (arrays st)" using a t by simp
    then show ?thesis using True t by simp
  next
    case False
    then have "array (objects st ! p) = Some a" using a by simp
    from consistentD [OF c _ this] p False show ?thesis by (simp add: nth_append)
  qed
qed

lemma consistent_append:
  assumes c: "shapes_consistent st"
  shows "shapes_consistent (st\<lparr>arrays := arrays st @ [new]\<rparr>)"
proof (rule consistentI)
  fix p a
  assume "p < length (objects (st\<lparr>arrays := arrays st @ [new]\<rparr>))"
    and "array (objects (st\<lparr>arrays := arrays st @ [new]\<rparr>) ! p) = Some a"
  then have "a < length (arrays st) \<and> wshape (objects st ! p) = shape (arrays st ! a)"
    using consistentD [OF c, of p a] by simp
  then show "a < length (arrays (st\<lparr>arrays := arrays st @ [new]\<rparr>))
      \<and> wshape (objects (st\<lparr>arrays := arrays st @ [new]\<rparr>) ! p)
          = shape (arrays (st\<lparr>arrays := arrays st @ [new]\<rparr>) ! a)"
    by (simp add: nth_append)
qed

lemma consistent_ArrayWrapper:
  assumes c: "shapes_consistent st"
  shows "shapes_consistent (snd (ArrayWrapper st a))"
proof (cases "a < length (arrays st)")
  case True
  note r = ArrayWrapper_result [OF True]
  show ?thesis
  proof (rule consistentI)
    fix p b
    assume p: "p < length (objects (snd (ArrayWrapper st a)))"
      and b: "array (objects (snd (ArrayWrapper st a)) ! p) = Some b"
    show "b < length (arrays (snd (ArrayWrapper st a)))
        \<and> wshape (objects (snd (ArrayWrapper st a)) ! p)
            = shape (arrays (snd (ArrayWrapper st a)) ! b)"
    proof (cases "p < length (objects st)")
      case True
      then have "array (objects st ! p) = Some b" using b by (simp add: r nth_append)
      from consistentD [OF c True this] True show ?thesis by (simp add: r nth_append)
    next
      case False
      then have pl: "p = length (objects st)" using p by (simp add: r)
      then have "b = a" using b by (simp add: r)
      then show ?thesis using pl \<open>a < length (arrays st)\<close> by (simp add: r)
    qed
  qed
next
  case False
  then show ?thesis using c by (simp add: ArrayWrapper_invalid)
qed

lemma consistent_children:
  assumes c: "shapes_consistent st"
  shows "shapes_consistent (update_object st this (\<lambda>w. w\<lparr>children := g w\<rparr>))"
    (is "shapes_consistent ?st'")
proof (rule consistentI)
  fix p a
  assume p: "p < length (objects ?st')" and a: "array (objects ?st' ! p) = Some a"
  have p': "p < length (objects st)" using p by (simp add: update_object_def)
  have "array (objects st ! p) = Some a"
    using a p' by (cases "p = this") (simp_all add: update_object_def)
  from consistentD [OF c p' this] p'
  show "a < length (arrays ?st') \<and> wshape (objects ?st' ! p) = shape (arrays ?st' ! a)"
    by (cases "p = this") (simp_all add: update_object_def)
qed

lemma consistent_destroyed:
  assumes c: "shapes_consistent st"
  shows "shapes_consistent (update_object st this (\<lambda>w. w\<lparr>array := None\<rparr>))"
    (is "shapes_consistent ?st'")
proof (rule consistentI)
  fix p a
  assume p: "p < length (objects ?st')" and a: "array (objects ?st' ! p) = Some a"
  have p': "p < length (objects st)" using p by (simp add: update_object_def)
  have ne: "p \<noteq> this" using a p' by (auto simp: update_object_def)
  then have "array (objects st ! p) = Some a" using a by (simp add: update_object_def)
  from consistentD [OF c p' this] ne
  show "a < length (arrays ?st') \<and> wshape (objects ?st' ! p) = shape (arrays ?st' ! a)"
    by (simp add: update_object_def)
qed

lemma consistent_written:
  assumes c: "shapes_consistent st" and s: "shape out' = shape (arrays st ! oa)"
  shows "shapes_consistent (st\<lparr>arrays := (arrays st)[oa := out']\<rparr>)"
    (is "shapes_consistent ?st'")
proof (rule consistentI)
  fix p a
  assume p: "p < length (objects ?st')" and a: "array (objects ?st' ! p) = Some a"
  from consistentD [OF c, of p a] p a
  have d: "a < length (arrays st) \<and> wshape (objects st ! p) = shape (arrays st ! a)" by simp
  then show "a < length (arrays ?st') \<and> wshape (objects ?st' ! p) = shape (arrays ?st' ! a)"
    using s by (cases "a = oa") simp_all
qed

lemma consistent_reshape:
  assumes c: "shapes_consistent st"
  shows "shapes_consistent (snd (eqs_array_reshape h st this s))"
proof (cases "storage_array st this")
  case (Inl e)
  then show ?thesis using c by (simp add: reshape_no_array)
next
  case (Inr arr)
  have t: "this < length (objects st)" using storage_array_Inr [OF Inr] by simp
  show ?thesis
  proof (cases "shape_limit h (kind arr) s")
    case (Some e)
    then show ?thesis using c by (simp add: reshape_refused [OF Inr])
  next
    case None
    show ?thesis
    proof (cases "prod_list s = prod_list (shape arr)")
      case True
      have "shapes_consistent (st\<lparr>arrays := arrays st @ [arr\<lparr>shape := s\<rparr>],
            objects := (objects st)[this := (objects st ! this)
               \<lparr>array := Some (length (arrays st)), wshape := shape (arr\<lparr>shape := s\<rparr>)\<rparr>]\<rparr>)"
        by (rule consistent_replace [OF c t])
      then show ?thesis by (simp add: reshape_result [OF Inr True None])
    next
      case False
      then show ?thesis using c by (simp add: reshape_failure [OF Inr False None])
    qed
  qed
qed

lemma consistent_swap_axes:
  assumes c: "shapes_consistent st"
  shows "shapes_consistent (snd (eqs_array_swap_axes st this i j))"
proof (cases "storage_array st this")
  case (Inl e)
  then show ?thesis using c by (simp add: swap_axes_no_array)
next
  case (Inr arr)
  have t: "this < length (objects st)" using storage_array_Inr [OF Inr] by simp
  show ?thesis
  proof (cases "ndarray_swapaxes arr i j")
    case (Inl e)
    then show ?thesis using c by (simp add: swap_axes_failure [OF Inr])
  next
    case (Inr arr')
    show ?thesis
      using consistent_replace [OF c t, of arr']
      by (simp add: swap_axes_result [OF \<open>storage_array st this = Inr arr\<close> Inr])
  qed
qed

lemma consistent_copy:
  assumes c: "shapes_consistent st"
  shows "shapes_consistent (snd (eqs_array_copy st this))"
proof (cases "storage_array st this")
  case (Inl e)
  then show ?thesis using c by (simp add: eqs_array_copy_def)
next
  case (Inr arr)
  have "shapes_consistent (snd (ArrayWrapper (st\<lparr>arrays := arrays st @ [arr]\<rparr>) (length (arrays st))))"
    by (rule consistent_ArrayWrapper [OF consistent_append [OF c]])
  then show ?thesis using Inr by (simp add: eqs_array_copy_def new_array_def)
qed

lemma consistent_destroy:
  assumes c: "shapes_consistent st"
  shows "shapes_consistent (snd (eqs_array_destroy st this))"
  using c consistent_destroyed [OF c, of this]
  by (simp add: eqs_array_destroy_def split: option.splits)

lemma consistent_move:
  assumes c: "shapes_consistent st"
  shows "shapes_consistent (snd (eqs_array_move_samples_from h st this input samples p0 p1))"
proof (cases "eqs_array_move_samples_from h st this input samples p0 p1")
  case (Pair r st')
  show ?thesis
  proof (cases r)
    case (Inl e)
    have "fst (eqs_array_move_samples_from h st this input samples p0 p1) = Inl e"
      using Pair Inl by simp
    from move_failure [OF this] show ?thesis using c by simp
  next
    case (Inr u)
    then have m: "eqs_array_move_samples_from h st this input samples p0 p1 = (Inr (), st')"
      using Pair by simp
    from move_inversion [OF m] obtain oa v out' where
      s: "setitem_rows h (arrays st ! oa) (map snd samples) p0 p1 v = Inr out'"
      and st': "st' = st\<lparr>arrays := (arrays st)[oa := out']\<rparr>"
      by blast
    have "shape out' = shape (arrays st ! oa)" using setitem_rows_attrs [OF s] by simp
    from consistent_written [OF c this] show ?thesis using Pair st' by simp
  qed
qed

lemma host_zeros:
  "(case kind arr of
      Numpy \<Rightarrow> np_zeros h s t
    | Torch \<Rightarrow> torch_zeros h s t (device arr))
   = (case shape_limit h (kind arr) s of
        Some e \<Rightarrow> Inl e
      | None \<Rightarrow>
          Inr \<lparr>kind = kind arr, dtype = t,
               device = (case kind arr of Numpy \<Rightarrow> Cpu | Torch \<Rightarrow> device arr),
               shape = s, data = replicate (prod_list s) 0\<rparr>)"
  by (cases "kind arr") (simp_all add: np_zeros_def torch_zeros_def split: option.splits)

lemma create_no_array:
  "storage_array st this = Inl e \<Longrightarrow> eqs_array_create h st this s = (Inl e, st)"
  by (simp add: eqs_array_create_def)

lemma create_refused:
  assumes "storage_array st this = Inr arr" "shape_limit h (kind arr) s = Some e"
  shows "eqs_array_create h st this s = (Inl e, st)"
  using assms by (simp add: eqs_array_create_def Let_def host_zeros)

lemma create_result:
  assumes a: "storage_array st this = Inr arr" and l: "shape_limit h (kind arr) s = None"
  shows "eqs_array_create h st this s =
     (Inr (length (objects st)),
      update_object
        (snd (ArrayWrapper
           (st\<lparr>arrays := arrays st @
               [\<lparr>kind = kind arr, dtype = dtype arr,
                 device = (case kind arr of Numpy \<Rightarrow> Cpu | Torch \<Rightarrow> device arr),
                 shape = s, data = replicate (prod_list s) 0\<rparr>]\<rparr>)
           (length (arrays st))))
        this (\<lambda>w. w\<lparr>children := children w @ [length (objects st)]\<rparr>))"
proof -
  let ?z = "\<lparr>kind = kind arr, dtype = dtype arr,
                 device = (case kind arr of Numpy \<Rightarrow> Cpu | Torch \<Rightarrow> device arr),
                 shape = s, data = replicate (prod_list s) 0\<rparr>"
  let ?st1 = "st\<lparr>arrays := arrays st @ [?z]\<rparr>"
  have v: "length (arrays st) < length (arrays ?st1)" by simp
  note r = ArrayWrapper_result [OF v]
  have f: "fst (ArrayWrapper ?st1 (length (arrays st))) = Inr (length (objects st))"
    using r by simp
  obtain x st2 where p: "ArrayWrapper ?st1 (length (arrays st)) = (x, st2)"
    by (cases "ArrayWrapper ?st1 (length (arrays st))")
  with f have x: "x = Inr (length (objects st))" by simp
  show ?thesis
    using a l p x by (simp add: eqs_array_create_def Let_def host_zeros new_array_def)
qed

lemma consistent_create:
  assumes c: "shapes_consistent st"
  shows "shapes_consistent (snd (eqs_array_create h st this s))"
proof (cases "storage_array st this")
  case (Inl e)
  then show ?thesis using c by (simp add: create_no_array)
next
  case (Inr arr)
  show ?thesis
  proof (cases "shape_limit h (kind arr) s")
    case (Some e)
    then show ?thesis using c by (simp add: create_refused [OF Inr])
  next
    case None
    show ?thesis
      unfolding create_result [OF Inr None] snd_conv
      by (intro consistent_children consistent_ArrayWrapper consistent_append c)
  qed
qed

lemma consistent_shape:
  assumes c: "shapes_consistent st" and a: "storage_array st p = Inr arr"
  shows "eqs_array_shape st p = (Inr (shape arr), st)"
proof -
  from storage_array_Inr [OF a] obtain b where
    p: "p < length (objects st)" and b: "array (objects st ! p) = Some b"
      "arrays st ! b = arr"
    by blast
  from consistentD [OF c p b(1)] b(2) have "wshape (objects st ! p) = shape arr" by simp
  then show ?thesis using p by (simp add: eqs_array_shape_def object_from_ptr_def)
qed

lemma scenario_consistent: "shapes_consistent scenario_state"
  by (simp add: shapes_consistent_def scenario_state_def get_array_def scenario_dst_def
        scenario_src_def narrow_src_def tensor_src_def)

lemma initial_consistent: "shapes_consistent initial_state"
  by (simp add: shapes_consistent_def initial_state_def)

text \<open>
  Claim C8. In a state where the cached shape of every live wrapper is the shape of the
  array it refers to, the shape operation returns the shape of the host array for every
  live wrapper; the state of a fresh process is such a state, and from such a state the
  construction of a wrapper and every callback, \<open>reshape\<close>, \<open>swap_axes\<close>, \<open>create\<close>,
  \<open>copy\<close>, \<open>move_samples_from\<close> and \<open>destroy\<close>, lead to such a state again, whether
  they succeed or fail; the children made by \<open>create\<close> and \<open>copy\<close> are wrappers of the
  resulting state.
\<close>

theorem cached_shape_invariant:
  assumes c: "shapes_consistent st"
  shows "(\<forall>p arr. storage_array st p = Inr arr
            \<longrightarrow> eqs_array_shape st p = (Inr (shape arr), st))
       \<and> shapes_consistent (snd (ArrayWrapper st a))
       \<and> shapes_consistent (snd (eqs_array_reshape h st this s))
       \<and> shapes_consistent (snd (eqs_array_swap_axes st this axis_1 axis_2))
       \<and> shapes_consistent (snd (eqs_array_create h st this s))
       \<and> shapes_consistent (snd (eqs_array_copy st this))
       \<and> shapes_consistent (snd (eqs_array_move_samples_from h st this input samples p0 p1))
       \<and> shapes_consistent (snd (eqs_array_destroy st this))
       \<and> shapes_consistent initial_state"
  using consistent_shape [OF c] consistent_ArrayWrapper [OF c] consistent_reshape [OF c]
    consistent_swap_axes [OF c] consistent_create [OF c] consistent_copy [OF c]
    consistent_move [OF c] consistent_destroy [OF c] initial_consistent
  by blast

theorem cached_shape_invariant_witness:
  "shapes_consistent scenario_state
   \<and> shapes_consistent (snd (eqs_array_reshape example_host scenario_state 2 [9, 2]))
   \<and> shapes_consistent (snd (eqs_array_swap_axes scenario_state 2 0 2))
   \<and> shapes_consistent (snd (eqs_array_create example_host scenario_state 2 [7, 2]))
   \<and> shapes_consistent (snd (eqs_array_copy scenario_state 2))
   \<and> eqs_array_shape scenario_state 2 = (Inr (shape narrow_src), scenario_state)"
proof -
  note t = cached_shape_invariant [OF scenario_consistent, of 0 example_host 2 "[9, 2]" 0 2]
  note u = cached_shape_invariant [OF scenario_consistent, of 0 example_host 2 "[7, 2]" 0 2]
  from t have a: "shapes_consistent (snd (eqs_array_reshape example_host scenario_state 2 [9, 2]))"
    and b: "shapes_consistent (snd (eqs_array_swap_axes scenario_state 2 0 2))"
    and d: "shapes_consistent (snd (eqs_array_copy scenario_state 2))"
    and e: "\<forall>p arr. storage_array scenario_state p = Inr arr
            \<longrightarrow> eqs_array_shape scenario_state p = (Inr (shape arr), scenario_state)"
    by blast+
  from u have f: "shapes_consistent (snd (eqs_array_create example_host scenario_state 2 [7, 2]))"
    by blast
  from e scenario_narrow
  have g: "eqs_array_shape scenario_state 2 = (Inr (shape narrow_src), scenario_state)"
    by blast
  from scenario_consistent a b d f g show ?thesis by blast
qed

subsection \<open>Creating an array of zeros\<close>

lemma backend_origin_cached:
  "cached_origin st k = Some v \<Longrightarrow> backend_origin st k = (v, st)"
  by (cases k) (simp_all add: cached_origin_def backend_origin_def numpy_origin_def
        torch_origin_def)

lemma backend_origin_caches:
  "cached_origin (snd (backend_origin st k)) k = Some (fst (backend_origin st k))"
proof (cases k)
  case Numpy
  obtain v st' where r: "numpy_origin st = (v, st')" by (cases "numpy_origin st")
  from numpy_origin_cached [OF r] r Numpy show ?thesis
    by (simp add: cached_origin_def backend_origin_def)
next
  case Torch
  obtain v st' where r: "torch_origin st = (v, st')" by (cases "torch_origin st")
  from torch_origin_cached [OF r] r Torch show ?thesis
    by (simp add: cached_origin_def backend_origin_def)
qed

lemma ArrayWrapper_caches:
  assumes "a < length (arrays st)"
  shows "cached_origin (snd (ArrayWrapper st a)) (kind (arrays st ! a))
           = Some (array_origin (objects (snd (ArrayWrapper st a)) ! length (objects st)))"
  using ArrayWrapper_result [OF assms] backend_origin_caches [of st "kind (arrays st ! a)"]
  by (simp add: cached_origin_def split: backend.splits)

lemma ArrayWrapper_cached:
  assumes a: "a < length (arrays st)" and c: "cached_origin st (kind (arrays st ! a)) = Some v"
  shows "ArrayWrapper st a =
     (Inr (length (objects st)),
      st\<lparr>objects := objects st @
         [\<lparr>array = Some a, wshape = shape (arrays st ! a), children = [],
           array_origin = v\<rparr>]\<rparr>)"
  using a backend_origin_cached [OF c]
  by (cases "kind (arrays st ! a)")
     (simp_all add: ArrayWrapper_def get_array_def backend_origin_def Let_def)

lemma create_state:
  assumes arr: "storage_array st this = Inr arr"
    and org: "cached_origin st (kind arr) = Some v"
    and lim: "shape_limit h (kind arr) s = None"
  shows "eqs_array_create h st this s =
     (Inr (length (objects st)),
      st\<lparr>arrays := arrays st @
            [\<lparr>kind = kind arr, dtype = dtype arr,
              device = (case kind arr of Numpy \<Rightarrow> Cpu | Torch \<Rightarrow> device arr),
              shape = s, data = replicate (prod_list s) 0\<rparr>],
          objects := (objects st @
            [\<lparr>array = Some (length (arrays st)), wshape = s, children = [],
              array_origin = v\<rparr>])
            [this := (objects st ! this)
               \<lparr>children := children (objects st ! this) @ [length (objects st)]\<rparr>]\<rparr>)"
proof -
  let ?z = "\<lparr>kind = kind arr, dtype = dtype arr,
              device = (case kind arr of Numpy \<Rightarrow> Cpu | Torch \<Rightarrow> device arr),
              shape = s, data = replicate (prod_list s) 0\<rparr>"
  let ?st1 = "st\<lparr>arrays := arrays st @ [?z]\<rparr>"
  have t: "this < length (objects st)" using storage_array_Inr [OF arr] by simp
  have a: "length (arrays st) < length (arrays ?st1)" by simp
  have c: "cached_origin ?st1 (kind (arrays ?st1 ! length (arrays st))) = Some v"
    using org by (cases "kind arr") (simp_all add: cached_origin_def)
  have w: "ArrayWrapper ?st1 (length (arrays st)) =
     (Inr (length (objects st)),
      ?st1\<lparr>objects := objects st @
         [\<lparr>array = Some (length (arrays st)), wshape = s, children = [],
           array_origin = v\<rparr>]\<rparr>)"
    using ArrayWrapper_cached [OF a c] by simp
  show ?thesis
    unfolding create_result [OF arr lim] w snd_conv
    using t by (simp add: update_object_def nth_append)
qed

lemma zeros_elem:
  assumes "shape z = s" "data z = replicate (prod_list s) 0" "valid_index s idx"
  shows "elem z idx = 0"
  using assms ravel_less [OF assms(3)] by (simp add: elem_def)

text \<open>
  Claim C5, as the code has it. Take a live wrapper in a state where the cached origin
  of its backend is its own origin, which the construction of a wrapper establishes and
  which no callback changes. For every requested shape that the host library does not
  refuse, \<open>create\<close> returns a new wrapper: it reports the requested shape, refers to a
  new array of that shape whose every element is zero, of the kind, element type and
  device of the array of the parent, and has the origin of the parent. The new array is
  at an address no wrapper referred to, every array of the state is as before, so is
  every wrapper but the parent, whose list of children has the new wrapper appended.
  For a shape the host library refuses, \<open>create\<close> fails and changes nothing.
\<close>

theorem create_gives_zeros:
  assumes arr: "storage_array st this = Inr arr"
    and wf: "kind arr = Numpy \<longrightarrow> device arr = Cpu"
    and org: "cached_origin st (kind arr) = Some (array_origin (objects st ! this))"
    and cons: "shapes_consistent st"
  shows "(shape_limit h (kind arr) s = None \<longrightarrow>
           (\<exists>st' z. eqs_array_create h st this s = (Inr (length (objects st)), st')
              \<and> storage_array st' (length (objects st)) = Inr z
              \<and> eqs_array_shape st' (length (objects st)) = (Inr s, st')
              \<and> shape z = s \<and> length (data z) = prod_list s
              \<and> (\<forall>idx. valid_index s idx \<longrightarrow> elem z idx = 0)
              \<and> kind z = kind arr \<and> dtype z = dtype arr \<and> device z = device arr
              \<and> eqs_array_origin st' (length (objects st))
                   = (Inr (array_origin (objects st ! this)), st')
              \<and> eqs_array_origin st' this = (Inr (array_origin (objects st ! this)), st')
              \<and> array (objects st' ! length (objects st)) = Some (length (arrays st))
              \<and> (\<forall>p<length (objects st). array (objects st ! p) \<noteq> Some (length (arrays st)))
              \<and> arrays st' = arrays st @ [z]
              \<and> storage_array st' this = Inr arr
              \<and> length (objects st') = Suc (length (objects st))
              \<and> (\<forall>p<length (objects st). p \<noteq> this \<longrightarrow> objects st' ! p = objects st ! p)
              \<and> objects st' ! this = (objects st ! this)
                   \<lparr>children := children (objects st ! this) @ [length (objects st)]\<rparr>
              \<and> registry st' = registry st
              \<and> cached_origin st' = cached_origin st
              \<and> shapes_consistent st'))
       \<and> (\<forall>e. shape_limit h (kind arr) s = Some e \<longrightarrow>
             eqs_array_create h st this s = (Inl e, st))
       \<and> (\<forall>a<length (arrays st).
             cached_origin (snd (ArrayWrapper st a)) (kind (arrays st ! a))
               = Some (array_origin (objects (snd (ArrayWrapper st a)) ! length (objects st))))"
proof (intro conjI impI allI)
  assume lim: "shape_limit h (kind arr) s = None"
  let ?z = "\<lparr>kind = kind arr, dtype = dtype arr,
              device = (case kind arr of Numpy \<Rightarrow> Cpu | Torch \<Rightarrow> device arr),
              shape = s, data = replicate (prod_list s) (0::'a)\<rparr>"
  let ?child = "\<lparr>array = Some (length (arrays st)), wshape = s, children = [],
              array_origin = array_origin (objects st ! this)\<rparr>"
  let ?st' = "st\<lparr>arrays := arrays st @ [?z],
          objects := (objects st @ [?child])
            [this := (objects st ! this)
               \<lparr>children := children (objects st ! this) @ [length (objects st)]\<rparr>]\<rparr>"
  have r: "eqs_array_create h st this s = (Inr (length (objects st)), ?st')"
    by (rule create_state [OF arr org lim])
  from storage_array_Inr [OF arr] obtain a where
    t: "this < length (objects st)" and a: "array (objects st ! this) = Some a"
      "a < length (arrays st)" "arrays st ! a = arr"
    by blast
  have dev: "device ?z = device arr" using wf by (cases "kind arr") simp_all
  have c1: "storage_array ?st' (length (objects st)) = Inr ?z"
    using t by (simp add: storage_array_def object_from_ptr_def get_array_def nth_append)
  have c2: "eqs_array_shape ?st' (length (objects st)) = (Inr s, ?st')"
    using t by (simp add: eqs_array_shape_def object_from_ptr_def nth_append)
  have c3: "\<forall>idx. valid_index s idx \<longrightarrow> elem ?z idx = 0"
    by (simp add: zeros_elem)
  have c4: "eqs_array_origin ?st' (length (objects st))
      = (Inr (array_origin (objects st ! this)), ?st')"
    using t by (simp add: eqs_array_origin_def object_from_ptr_def nth_append)
  have c5: "eqs_array_origin ?st' this = (Inr (array_origin (objects st ! this)), ?st')"
    using t by (simp add: eqs_array_origin_def object_from_ptr_def)
  have c6: "array (objects ?st' ! length (objects st)) = Some (length (arrays st))"
    using t by (simp add: nth_append)
  have c7: "\<forall>p<length (objects st). array (objects st ! p) \<noteq> Some (length (arrays st))"
    using consistentD [OF cons] by fastforce
  have c8: "storage_array ?st' this = Inr arr"
    using t a by (simp add: storage_array_def object_from_ptr_def get_array_def nth_append)
  have c9: "\<forall>p<length (objects st). p \<noteq> this \<longrightarrow> objects ?st' ! p = objects st ! p"
    by (simp add: nth_append)
  have c10: "objects ?st' ! this = (objects st ! this)
       \<lparr>children := children (objects st ! this) @ [length (objects st)]\<rparr>"
    using t by simp
  have c11: "cached_origin ?st' = cached_origin st"
    by (rule ext) (simp add: cached_origin_def split: backend.splits)
  have c12: "shapes_consistent ?st'"
    using consistent_create [OF cons, of h this s] r by simp
  show "\<exists>st' z. eqs_array_create h st this s = (Inr (length (objects st)), st')
              \<and> storage_array st' (length (objects st)) = Inr z
              \<and> eqs_array_shape st' (length (objects st)) = (Inr s, st')
              \<and> shape z = s \<and> length (data z) = prod_list s
              \<and> (\<forall>idx. valid_index s idx \<longrightarrow> elem z idx = 0)
              \<and> kind z = kind arr \<and> dtype z = dtype arr \<and> device z = device arr
              \<and> eqs_array_origin st' (length (objects st))
                   = (Inr (array_origin (objects st ! this)), st')
              \<and> eqs_array_origin st' this = (Inr (array_origin (objects st ! this)), st')
              \<and> array (objects st' ! length (objects st)) = Some (length (arrays st))
              \<and> (\<forall>p<length (objects st). array (objects st ! p) \<noteq> Some (length (arrays st)))
              \<and> arrays st' = arrays st @ [z]
              \<and> storage_array st' this = Inr arr
              \<and> length (objects st') = Suc (length (objects st))
              \<and> (\<forall>p<length (objects st). p \<noteq> this \<longrightarrow> objects st' ! p = objects st ! p)
              \<and> objects st' ! this = (objects st ! this)
                   \<lparr>children := children (objects st ! this) @ [length (objects st)]\<rparr>
              \<and> registry st' = registry st
              \<and> cached_origin st' = cached_origin st
              \<and> shapes_consistent st'"
    apply (rule exI [of _ ?st'])
    apply (rule exI [of _ ?z])
    apply (intro conjI)
    apply (rule r)
    apply (rule c1)
    apply (rule c2)
    apply simp
    apply simp
    apply (rule c3)
    apply simp
    apply simp
    apply (rule dev)
    apply (rule c4)
    apply (rule c5)
    apply (rule c6)
    apply (rule c7)
    apply simp
    apply (rule c8)
    apply simp
    apply (rule c9)
    apply (rule c10)
    apply simp
    apply (rule c11)
    apply (rule c12)
    done
next
  fix e
  assume "shape_limit h (kind arr) s = Some e"
  then show "eqs_array_create h st this s = (Inl e, st)"
    by (rule create_refused [OF arr])
next
  fix a
  assume "a < length (arrays st)"
  then show "cached_origin (snd (ArrayWrapper st a)) (kind (arrays st ! a))
               = Some (array_origin (objects (snd (ArrayWrapper st a)) ! length (objects st)))"
    by (rule ArrayWrapper_caches)
qed

theorem create_gives_zeros_witness:
  "storage_array scenario_state 2 = Inr narrow_src
   \<and> device narrow_src = Cpu
   \<and> cached_origin scenario_state (kind narrow_src)
       = Some (array_origin (objects scenario_state ! 2))
   \<and> shapes_consistent scenario_state
   \<and> shape_limit example_host (kind narrow_src) [7, 2] = None
   \<and> fst (eqs_array_create example_host scenario_state 2 [7, 2])
       = Inr (length (objects scenario_state))
   \<and> shape_limit example_host (kind narrow_src) (replicate 65 1) = Some ValueError
   \<and> eqs_array_create example_host scenario_state 2 (replicate 65 1)
       = (Inl ValueError, scenario_state)"
proof -
  have d: "device narrow_src = Cpu" by (simp add: narrow_src_def)
  have o: "cached_origin scenario_state (kind narrow_src)
       = Some (array_origin (objects scenario_state ! 2))"
    by (simp add: cached_origin_def narrow_src_def scenario_state_def)
  have l1: "shape_limit example_host (kind narrow_src) [7, 2] = None"
    by (simp add: example_host_def)
  have l2: "shape_limit example_host (kind narrow_src) (replicate 65 1) = Some ValueError"
    by (simp add: example_host_def narrow_src_def shape_error_def)
  from d have wf: "kind narrow_src = Numpy \<longrightarrow> device narrow_src = Cpu" by simp
  note t = create_gives_zeros [OF scenario_narrow wf o scenario_consistent,
      where h = example_host and s = "[7, 2]"]
  note u = create_gives_zeros [OF scenario_narrow wf o scenario_consistent,
      where h = example_host and s = "replicate 65 1"]
  from t l1 obtain st' where
    "eqs_array_create example_host scenario_state 2 [7, 2]
       = (Inr (length (objects scenario_state)), st')"
    by blast
  then have a: "fst (eqs_array_create example_host scenario_state 2 [7, 2])
       = Inr (length (objects scenario_state))"
    by simp
  from u l2 have b: "eqs_array_create example_host scenario_state 2 (replicate 65 1)
       = (Inl ValueError, scenario_state)"
    by blast
  from scenario_narrow d o scenario_consistent l1 a l2 b show ?thesis by blast
qed

text \<open>The claim as written speaks of every shape. The callback hands the sizes to
  \<open>zeros\<close>, and the host library refuses 65 axes.\<close>

theorem create_beyond_limits_counterexample:
  "storage_array scenario_state 2 = Inr narrow_src
   \<and> eqs_array_create example_host scenario_state 2 (replicate 65 1)
       = (Inl ValueError, scenario_state)"
proof -
  have l: "shape_limit example_host (kind narrow_src) (replicate 65 1) = Some ValueError"
    by (simp add: example_host_def narrow_src_def shape_error_def)
  from scenario_narrow create_refused [OF scenario_narrow l] show ?thesis by simp
qed

subsection \<open>Copying an array\<close>

lemma reshape_cases:
  "snd (eqs_array_reshape h st q s) = st
   \<or> (q < length (objects st)
      \<and> (\<exists>new. snd (eqs_array_reshape h st q s) =
            st\<lparr>arrays := arrays st @ [new],
               objects := (objects st)[q := (objects st ! q)
                  \<lparr>array := Some (length (arrays st)), wshape := s\<rparr>]\<rparr>))"
proof (cases "storage_array st q")
  case (Inl e)
  then show ?thesis by (simp add: reshape_no_array)
next
  case (Inr arr)
  have t: "q < length (objects st)" using storage_array_Inr [OF Inr] by simp
  show ?thesis
  proof (cases "shape_limit h (kind arr) s")
    case (Some e)
    then show ?thesis by (simp add: reshape_refused [OF Inr])
  next
    case None
    show ?thesis
    proof (cases "prod_list s = prod_list (shape arr)")
      case True
      show ?thesis
        unfolding reshape_result [OF Inr True None] snd_conv using t by blast
    next
      case False
      then show ?thesis by (simp add: reshape_failure [OF Inr False None])
    qed
  qed
qed

lemma swap_axes_cases:
  "snd (eqs_array_swap_axes st q i j) = st
   \<or> (q < length (objects st)
      \<and> (\<exists>new s. snd (eqs_array_swap_axes st q i j) =
            st\<lparr>arrays := arrays st @ [new],
               objects := (objects st)[q := (objects st ! q)
                  \<lparr>array := Some (length (arrays st)), wshape := s\<rparr>]\<rparr>))"
proof (cases "storage_array st q")
  case (Inl e)
  then show ?thesis by (simp add: swap_axes_no_array)
next
  case (Inr arr)
  have t: "q < length (objects st)" using storage_array_Inr [OF Inr] by simp
  show ?thesis
  proof (cases "ndarray_swapaxes arr i j")
    case (Inl e)
    then show ?thesis by (simp add: swap_axes_failure [OF Inr])
  next
    case (Inr arr')
    show ?thesis
      unfolding swap_axes_result [OF \<open>storage_array st q = Inr arr\<close> Inr] snd_conv
      using t by blast
  qed
qed

lemma move_cases:
  "snd (eqs_array_move_samples_from h st q input samples p0 p1) = st
   \<or> (\<exists>oa out'. array (objects st ! q) = Some oa
        \<and> snd (eqs_array_move_samples_from h st q input samples p0 p1)
            = st\<lparr>arrays := (arrays st)[oa := out']\<rparr>)"
proof (cases "eqs_array_move_samples_from h st q input samples p0 p1")
  case (Pair r st')
  show ?thesis
  proof (cases r)
    case (Inl e)
    have "fst (eqs_array_move_samples_from h st q input samples p0 p1) = Inl e"
      using Pair Inl by simp
    from move_failure [OF this] show ?thesis by simp
  next
    case (Inr u)
    then have m: "eqs_array_move_samples_from h st q input samples p0 p1 = (Inr (), st')"
      using Pair by simp
    from move_inversion [OF m] obtain oa out' where
      "array (objects st ! q) = Some oa" "st' = st\<lparr>arrays := (arrays st)[oa := out']\<rparr>"
      by blast
    then show ?thesis using Pair by auto
  qed
qed

lemma apart_replace:
  assumes "apart st p q a w arr" "q < length (objects st)"
  shows "apart (st\<lparr>arrays := arrays st @ [new],
               objects := (objects st)[q := (objects st ! q)
                  \<lparr>array := Some (length (arrays st)), wshape := s\<rparr>]\<rparr>) p q a w arr"
  using assms by (auto simp: apart_def nth_append)

lemma apart_written:
  assumes "apart st p q a w arr" "array (objects st ! q) = Some oa"
  shows "apart (st\<lparr>arrays := (arrays st)[oa := out']\<rparr>) p q a w arr"
  using assms by (auto simp: apart_def)

lemma apart_mutate:
  assumes a: "apart st p q a w arr"
  shows "apart (mutate h st q m) p q a w arr"
proof (cases m)
  case (Reshape s)
  from reshape_cases [of h st q s] show ?thesis
    using a apart_replace [OF a] Reshape by auto
next
  case (SwapAxes i j)
  from swap_axes_cases [of st q i j] show ?thesis
    using a apart_replace [OF a] SwapAxes by auto
next
  case (MoveSamplesFrom input samples p0 p1)
  from move_cases [of h st q input samples p0 p1] show ?thesis
    using a apart_written [OF a] MoveSamplesFrom by auto
qed

lemma apart_mutate_all:
  "apart st p q a w arr \<Longrightarrow> apart (mutate_all h st q ms) p q a w arr"
  unfolding mutate_all_def
  by (induction ms arbitrary: st) (simp_all add: apart_mutate)

lemma apart_storage:
  assumes "apart st p q a w arr"
  shows "storage_array st p = Inr arr \<and> eqs_array_shape st p = (Inr (wshape w), st)
       \<and> eqs_array_origin st p = (Inr (array_origin w), st)"
  using assms
  by (auto simp: apart_def storage_array_def eqs_array_shape_def eqs_array_origin_def
        object_from_ptr_def get_array_def)

lemma copy_state:
  assumes arr: "storage_array st this = Inr arr"
    and org: "cached_origin st (kind arr) = Some v"
  shows "eqs_array_copy st this =
     (Inr (length (objects st)),
      st\<lparr>arrays := arrays st @ [arr],
          objects := objects st @
            [\<lparr>array = Some (length (arrays st)), wshape = shape arr, children = [],
              array_origin = v\<rparr>]\<rparr>)"
proof -
  let ?st1 = "st\<lparr>arrays := arrays st @ [arr]\<rparr>"
  have a: "length (arrays st) < length (arrays ?st1)" by simp
  have c: "cached_origin ?st1 (kind (arrays ?st1 ! length (arrays st))) = Some v"
    using org by (cases "kind arr") (simp_all add: cached_origin_def)
  have w: "ArrayWrapper ?st1 (length (arrays st)) =
     (Inr (length (objects st)),
      ?st1\<lparr>objects := objects st @
         [\<lparr>array = Some (length (arrays st)), wshape = shape arr, children = [],
           array_origin = v\<rparr>]\<rparr>)"
    using ArrayWrapper_cached [OF a c] by simp
  show ?thesis
    using arr w by (simp add: eqs_array_copy_def new_array_def)
qed

text \<open>
  Claim C6. Take a live wrapper in a state where the cached origin of its backend is
  its own origin. \<open>copy\<close> returns a new wrapper that refers to a new array with the
  elements, shape, kind, element type and device of the array of the original, reports
  that shape and has the origin of the original; the original is as before and the two
  wrappers refer to different arrays. After any sequence of \<open>reshape\<close>, \<open>swap_axes\<close> and
  \<open>move_samples_from\<close> calls on the copy, successful or not, the original refers to an
  array with the same elements and reports the same shape; and after any such
  sequence on the original, so does the copy.
\<close>

theorem copy_is_independent:
  assumes arr: "storage_array st this = Inr arr"
    and org: "cached_origin st (kind arr) = Some (array_origin (objects st ! this))"
  shows "\<exists>st'. eqs_array_copy st this = (Inr (length (objects st)), st')
      \<and> storage_array st' (length (objects st)) = Inr arr
      \<and> eqs_array_shape st' (length (objects st)) = (Inr (shape arr), st')
      \<and> eqs_array_origin st' (length (objects st))
           = (Inr (array_origin (objects st ! this)), st')
      \<and> storage_array st' this = Inr arr
      \<and> objects st' ! this = objects st ! this
      \<and> array (objects st' ! length (objects st)) = Some (length (arrays st))
      \<and> array (objects st' ! this) \<noteq> Some (length (arrays st))
      \<and> (\<forall>ms. storage_array (mutate_all h st' (length (objects st)) ms) this = Inr arr
              \<and> fst (eqs_array_shape (mutate_all h st' (length (objects st)) ms) this)
                  = fst (eqs_array_shape st this))
      \<and> (\<forall>ms. storage_array (mutate_all h st' this ms) (length (objects st)) = Inr arr
              \<and> fst (eqs_array_shape (mutate_all h st' this ms) (length (objects st)))
                  = Inr (shape arr))"
proof -
  let ?child = "\<lparr>array = Some (length (arrays st)), wshape = shape arr, children = [],
              array_origin = array_origin (objects st ! this)\<rparr>"
  let ?st' = "st\<lparr>arrays := arrays st @ [arr], objects := objects st @ [?child]\<rparr>"
  let ?c = "length (objects st)"
  have r: "eqs_array_copy st this = (Inr ?c, ?st')"
    by (rule copy_state [OF arr org])
  from storage_array_Inr [OF arr] obtain a where
    t: "this < length (objects st)" and a: "array (objects st ! this) = Some a"
      "a < length (arrays st)" "arrays st ! a = arr"
    by blast
  have c1: "storage_array ?st' ?c = Inr arr"
    by (simp add: storage_array_def object_from_ptr_def get_array_def)
  have c2: "eqs_array_shape ?st' ?c = (Inr (shape arr), ?st')"
    by (simp add: eqs_array_shape_def object_from_ptr_def)
  have c3: "eqs_array_origin ?st' ?c = (Inr (array_origin (objects st ! this)), ?st')"
    by (simp add: eqs_array_origin_def object_from_ptr_def)
  have c4: "storage_array ?st' this = Inr arr"
    using t a by (simp add: storage_array_def object_from_ptr_def get_array_def nth_append)
  have c5: "objects ?st' ! this = objects st ! this" using t by (simp add: nth_append)
  have c6: "array (objects ?st' ! ?c) = Some (length (arrays st))" by simp
  have c7: "array (objects ?st' ! this) \<noteq> Some (length (arrays st))"
    using t a by (simp add: nth_append)
  have ap1: "apart ?st' this ?c a (objects st ! this) arr"
    using t a by (simp add: apart_def nth_append)
  have ap2: "apart ?st' ?c this (length (arrays st)) ?child arr"
    using t a by (auto simp: apart_def nth_append)
  have sh: "fst (eqs_array_shape st this) = Inr (wshape (objects st ! this))"
    using t by (simp add: eqs_array_shape_def object_from_ptr_def)
  have c8: "storage_array (mutate_all h ?st' ?c ms) this = Inr arr
              \<and> fst (eqs_array_shape (mutate_all h ?st' ?c ms) this)
                  = fst (eqs_array_shape st this)" for ms
    using apart_storage [OF apart_mutate_all [OF ap1, of h ms]] sh by simp
  have c9: "storage_array (mutate_all h ?st' this ms) ?c = Inr arr
              \<and> fst (eqs_array_shape (mutate_all h ?st' this ms) ?c) = Inr (shape arr)" for ms
    using apart_storage [OF apart_mutate_all [OF ap2, of h ms]] by simp
  show ?thesis
    apply (rule exI [of _ ?st'])
    apply (intro conjI allI)
    apply (rule r)
    apply (rule c1)
    apply (rule c2)
    apply (rule c3)
    apply (rule c4)
    apply (rule c5)
    apply (rule c6)
    apply (rule c7)
    using c8 apply blast
    using c8 apply blast
    using c9 apply blast
    using c9 apply blast
    done
qed

lemma scenario_copy_mutated:
  "storage_array
     (mutate_all example_host (snd (eqs_array_copy scenario_state 2)) 4
        [MoveSamplesFrom 2 [(2, 0)] 0 3, Reshape [9, 2]]) 4
     = Inr (self_result\<lparr>shape := [9, 2]\<rparr>)"
  by code_simp

theorem copy_is_independent_witness:
  "storage_array scenario_state 2 = Inr narrow_src
   \<and> cached_origin scenario_state (kind narrow_src)
       = Some (array_origin (objects scenario_state ! 2))
   \<and> fst (eqs_array_copy scenario_state 2) = Inr (length (objects scenario_state))
   \<and> storage_array (snd (eqs_array_copy scenario_state 2)) (length (objects scenario_state))
       = Inr narrow_src
   \<and> storage_array
        (mutate_all example_host (snd (eqs_array_copy scenario_state 2))
           (length (objects scenario_state))
           [MoveSamplesFrom 2 [(2, 0)] 0 3, Reshape [9, 2]]) 2
       = Inr narrow_src
   \<and> storage_array
        (mutate_all example_host (snd (eqs_array_copy scenario_state 2)) 2
           [MoveSamplesFrom 2 [(2, 0)] 0 3, Reshape [9, 2]]) (length (objects scenario_state))
       = Inr narrow_src
   \<and> storage_array
        (mutate_all example_host (snd (eqs_array_copy scenario_state 2)) 4
           [MoveSamplesFrom 2 [(2, 0)] 0 3, Reshape [9, 2]]) 4
       = Inr (self_result\<lparr>shape := [9, 2]\<rparr>)"
proof -
  have o: "cached_origin scenario_state (kind narrow_src)
       = Some (array_origin (objects scenario_state ! 2))"
    by (simp add: cached_origin_def narrow_src_def scenario_state_def)
  from copy_is_independent [OF scenario_narrow o, of example_host] obtain st' where
    r: "eqs_array_copy scenario_state 2 = (Inr (length (objects scenario_state)), st')"
    and c: "storage_array st' (length (objects scenario_state)) = Inr narrow_src"
    and m1: "\<forall>ms. storage_array
        (mutate_all example_host st' (length (objects scenario_state)) ms) 2 = Inr narrow_src"
    and m2: "\<forall>ms. storage_array
        (mutate_all example_host st' 2 ms) (length (objects scenario_state)) = Inr narrow_src"
    by blast
  from r have s: "snd (eqs_array_copy scenario_state 2) = st'"
    and f: "fst (eqs_array_copy scenario_state 2) = Inr (length (objects scenario_state))"
    by simp_all
  from scenario_narrow o f c m1 m2 have
    "storage_array scenario_state 2 = Inr narrow_src
     \<and> cached_origin scenario_state (kind narrow_src)
         = Some (array_origin (objects scenario_state ! 2))
     \<and> fst (eqs_array_copy scenario_state 2) = Inr (length (objects scenario_state))
     \<and> storage_array st' (length (objects scenario_state)) = Inr narrow_src
     \<and> storage_array
          (mutate_all example_host st' (length (objects scenario_state))
             [MoveSamplesFrom 2 [(2, 0)] 0 3, Reshape [9, 2]]) 2
         = Inr narrow_src
     \<and> storage_array
          (mutate_all example_host st' 2
             [MoveSamplesFrom 2 [(2, 0)] 0 3, Reshape [9, 2]]) (length (objects scenario_state))
         = Inr narrow_src"
    by blast
  with scenario_copy_mutated show ?thesis unfolding s by blast
qed

end
